theory Spec2Isabelle
  imports Complex_Main "HOL-Library.Word"
begin

section \<open>Failures of the program, as values\<close>

text \<open>
  Every way in which a function of \<^verbatim>\<open>nerf.cpp\<close> stops short of returning is a value:
  \<^item> \<open>OutOfBounds\<close>: an unchecked \<^verbatim>\<open>operator[]\<close> or \<^verbatim>\<open>memcpy\<close> reaches past the end of a
    \<^verbatim>\<open>std::vector\<close> or array (undefined behaviour in C++);
  \<^item> \<open>IntOverflow\<close>: a product of \<^verbatim>\<open>int\<close>s leaves the 32-bit range (undefined behaviour);
  \<^item> \<open>LengthError\<close>: \<^verbatim>\<open>std::vector::resize\<close> is asked for more than \<^verbatim>\<open>max_size()\<close>;
  \<^item> \<open>JsonException\<close>: an accessor of the JSON library throws;
  \<^item> \<open>Exit n\<close>: the program calls \<^verbatim>\<open>exit(n)\<close>;
  \<^item> \<open>FileNotFound\<close>: a file cannot be opened (\<^verbatim>\<open>assert(0)\<close>, or else the parser throws);
  \<^item> \<open>PrepareFailed\<close>: \<^verbatim>\<open>ApiVulkanSample::prepare\<close> returns false.
\<close>

datatype error =
  OutOfBounds | IntOverflow | LengthError | JsonException | Exit int | FileNotFound | PrepareFailed

definition load :: "'a list \<Rightarrow> nat \<Rightarrow> error + 'a" where
  "load xs i = (if i < length xs then Inr (xs ! i) else Inl OutOfBounds)"

definition store :: "'a list \<Rightarrow> nat \<Rightarrow> 'a \<Rightarrow> error + 'a list" where
  "store xs i v = (if i < length xs then Inr (xs[i := v]) else Inl OutOfBounds)"

section \<open>The MLP weights buffer\<close>

text \<open>
  The six element counts are macros of \<^verbatim>\<open>nerf.h\<close>, which is not among the sources: they are
  a parameter of the model. \<^verbatim>\<open>MLP_Weights\<close> is one flat array \<^verbatim>\<open>data\<close>; the function writes
  the six segments one after the other, so the array is modelled by a list that the
  function receives and returns.
\<close>

record mlp_counts =
  WEIGHTS_0_COUNT :: nat
  WEIGHTS_1_COUNT :: nat
  WEIGHTS_2_COUNT :: nat
  BIAS_0_COUNT :: nat
  BIAS_1_COUNT :: nat
  BIAS_2_COUNT :: nat

text \<open>The document \<^verbatim>\<open>mlp.json\<close>, as the \<^verbatim>\<open>get\<close> calls of lines 1256 to 1324 deliver it.\<close>

record 'a mlp_json =
  obj_num :: int
  weights_0 :: "'a list list"
  bias_0 :: "'a list"
  weights_1 :: "'a list list"
  bias_1 :: "'a list"
  weights_2 :: "'a list list"
  bias_2 :: "'a list"

text \<open>Lines 1271 to 1274 (and 1292, 1313): the rows are appended one after the other.\<close>

fun flatten :: "'a list list \<Rightarrow> 'a list \<Rightarrow> 'a list" where
  "flatten [] acc = acc"
| "flatten (row # rows) acc = flatten rows (acc @ row)"

text \<open>
  Lines 1334 to 1342 and 1358 to 1367: \<^verbatim>\<open>data[base + ii] = src[ii]\<close> for the indices
  \<open>ii\<close> in turn.
\<close>

fun copy_loop :: "nat \<Rightarrow> 'a list \<Rightarrow> nat list \<Rightarrow> 'a list \<Rightarrow> error + 'a list" where
  "copy_loop base src [] data = Inr data"
| "copy_loop base src (ii # rest) data =
     (case load src ii of
        Inl e \<Rightarrow> Inl e
      | Inr v \<Rightarrow>
          (case store data (base + ii) v of
             Inl e \<Rightarrow> Inl e
           | Inr data' \<Rightarrow> copy_loop base src rest data'))"

text \<open>
  Lines 1345 to 1356: every position \<open>ii\<close> with \<open>(ii + 1) % 4 == 0\<close> receives \<open>0.0f\<close>,
  every other one the next unread source element, counted by \<^verbatim>\<open>raw_weight_cnt\<close>.
\<close>

fun pad_weights_loop ::
  "nat \<Rightarrow> 'a::zero list \<Rightarrow> nat list \<Rightarrow> 'a list \<times> nat \<Rightarrow> error + 'a list \<times> nat" where
  "pad_weights_loop base src [] (data, raw_weight_cnt) = Inr (data, raw_weight_cnt)"
| "pad_weights_loop base src (ii # rest) (data, raw_weight_cnt) =
     (if (ii + 1) mod 4 = 0 then
        (case store data (base + ii) 0 of
           Inl e \<Rightarrow> Inl e
         | Inr data' \<Rightarrow> pad_weights_loop base src rest (data', raw_weight_cnt))
      else
        (case load src raw_weight_cnt of
           Inl e \<Rightarrow> Inl e
         | Inr v \<Rightarrow>
             (case store data (base + ii) v of
                Inl e \<Rightarrow> Inl e
              | Inr data' \<Rightarrow> pad_weights_loop base src rest (data', raw_weight_cnt + 1))))"

text \<open>
  Lines 1370 to 1382: the bias loop has no counter of its own; a position that is not a
  padding position reads the source at the position's own index \<open>ii\<close>.
\<close>

fun pad_bias_loop :: "nat \<Rightarrow> 'a::zero list \<Rightarrow> nat list \<Rightarrow> 'a list \<Rightarrow> error + 'a list" where
  "pad_bias_loop base src [] data = Inr data"
| "pad_bias_loop base src (ii # rest) data =
     (if (ii + 1) mod 4 = 0 then
        (case store data (base + ii) 0 of
           Inl e \<Rightarrow> Inl e
         | Inr data' \<Rightarrow> pad_bias_loop base src rest data')
      else
        (case load src ii of
           Inl e \<Rightarrow> Inl e
         | Inr v \<Rightarrow>
             (case store data (base + ii) v of
                Inl e \<Rightarrow> Inl e
              | Inr data' \<Rightarrow> pad_bias_loop base src rest data')))"

text \<open>The error messages of lines 1276 to 1329, in the order in which they are logged.\<close>

datatype log_entry =
  MlpCountMismatch string nat nat
    \<comment> \<open>\<^verbatim>\<open>"MLP data layer {} count is {}, rather than {}"\<close>: which array, its size, the
       constant printed\<close>

definition check_count :: "string \<Rightarrow> nat \<Rightarrow> nat \<Rightarrow> nat \<Rightarrow> log_entry list" where
  "check_count what actual expected printed =
     (if actual \<noteq> expected then [MlpCountMismatch what actual printed] else [])"

text \<open>
  Lines 1276, 1283, 1297, 1304, 1319 and 1326. The constants are unsigned in no way that
  matters here: \<^verbatim>\<open>WEIGHTS_2_COUNT - 16\<close> and \<^verbatim>\<open>BIAS_2_COUNT - 1\<close> are \<^verbatim>\<open>int\<close> differences
  compared with a \<^verbatim>\<open>size_t\<close>, so a constant below 16 (below 1) wraps to a huge unsigned
  number that no size equals.
\<close>

definition size_t_of_int :: "int \<Rightarrow> nat" where
  "size_t_of_int i = nat (i mod 2 ^ 64)"

definition mlp_count_checks :: "mlp_counts \<Rightarrow> 'a mlp_json \<Rightarrow> log_entry list" where
  "mlp_count_checks c d =
     check_count ''0 weights'' (length (flatten (weights_0 d) [])) (WEIGHTS_0_COUNT c) (WEIGHTS_0_COUNT c) @
     check_count ''0 bias'' (length (bias_0 d)) (BIAS_0_COUNT c) (BIAS_0_COUNT c) @
     check_count ''1 weights'' (length (flatten (weights_1 d) [])) (WEIGHTS_1_COUNT c) (WEIGHTS_1_COUNT c) @
     check_count ''1 bias'' (length (bias_1 d)) (BIAS_1_COUNT c) (BIAS_1_COUNT c) @
     check_count ''2 weights'' (length (flatten (weights_2 d) []))
       (size_t_of_int (int (WEIGHTS_2_COUNT c) - 16)) (WEIGHTS_2_COUNT c) @
     check_count ''2 bias'' (length (bias_2 d))
       (size_t_of_int (int (BIAS_2_COUNT c) - 1)) (BIAS_2_COUNT c)"

text \<open>Sequencing: a failure ends the function, a result is passed on.\<close>

definition and_then :: "error + 'a \<Rightarrow> ('a \<Rightarrow> error + 'b) \<Rightarrow> error + 'b" where
  "and_then r f = (case r of Inl e \<Rightarrow> Inl e | Inr v \<Rightarrow> f v)"

text \<open>Lines 1332 to 1382: the six loops, in the order of the source.\<close>

definition pack_mlp :: "mlp_counts \<Rightarrow> 'a::zero mlp_json \<Rightarrow> 'a list \<Rightarrow> error + 'a list" where
  "pack_mlp c d data0 =
     (let w0 = WEIGHTS_0_COUNT c; w1 = WEIGHTS_1_COUNT c; w2 = WEIGHTS_2_COUNT c;
          b0 = BIAS_0_COUNT c; b1 = BIAS_1_COUNT c; b2 = BIAS_2_COUNT c
      in
      and_then (copy_loop 0 (flatten (weights_0 d) []) [0..<w0] data0) (\<lambda>data1.
      and_then (copy_loop w0 (flatten (weights_1 d) []) [0..<w1] data1) (\<lambda>data2.
      and_then (pad_weights_loop (w0 + w1) (flatten (weights_2 d) []) [0..<w2] (data2, 0))
        (\<lambda>(data3, raw_weight_cnt).
      and_then (copy_loop (w0 + w1 + w2) (bias_0 d) [0..<b0] data3) (\<lambda>data4.
      and_then (copy_loop (w0 + w1 + w2 + b0) (bias_1 d) [0..<b1] data4) (\<lambda>data5.
      pad_bias_loop (w0 + w1 + w2 + b0 + b1) (bias_2 d) [0..<b2] data5))))))"

text \<open>
  A \<^verbatim>\<open>Model\<close> (declared in \<^verbatim>\<open>nerf.h\<close>): of its fields the model keeps the two that
  \<^verbatim>\<open>initialize_mlp_uniform_buffers\<close> assigns and the triangle list that the draw call
  counts. \<^verbatim>\<open>models.resize\<close> appends default-constructed entries; both integer fields of
  a new entry are assigned before the function returns.
\<close>

record model =
  model_index :: int
  sub_model_num :: int
  indices :: "(32 word \<times> 32 word \<times> 32 word) list"

definition new_model :: model where
  "new_model = \<lparr>model_index = 0, sub_model_num = 0, indices = []\<rparr>"

record 'a mlp_state =
  models :: "model list"
  mlp_weight_vector :: "'a list list"
  log :: "log_entry list"

text \<open>
  Line 1260, \<^verbatim>\<open>models.resize(models.size() + obj_num)\<close>: the sum is taken in
  \<^verbatim>\<open>size_t\<close>, so a negative \<^verbatim>\<open>obj_num\<close> either shortens the vector or asks for a size
  beyond every \<^verbatim>\<open>max_size()\<close>.
\<close>

definition resize_models :: "model list \<Rightarrow> int \<Rightarrow> error + model list" where
  "resize_models ms n =
     (let new_size = int (length ms) + n in
      if new_size < 0 then Inl LengthError
      else if new_size \<le> int (length ms) then Inr (take (nat new_size) ms)
      else Inr (ms @ replicate (nat new_size - length ms) new_model))"

text \<open>Lines 1262 to 1265 and 1385 to 1388: one field of \<^verbatim>\<open>models[i]\<close> is assigned.\<close>

fun assign_loop :: "(model \<Rightarrow> model) \<Rightarrow> nat list \<Rightarrow> model list \<Rightarrow> error + model list" where
  "assign_loop f [] ms = Inr ms"
| "assign_loop f (i # rest) ms =
     and_then (load ms i) (\<lambda>m. and_then (store ms i (f m)) (assign_loop f rest))"

text \<open>
  \<^verbatim>\<open>Nerf::initialize_mlp_uniform_buffers\<close>, lines 1236 to 1389. The description \<open>d\<close> is
  the parsed \<^verbatim>\<open>mlp.json\<close> of the model; opening and parsing the file are the JSON
  library's.
\<close>

definition initialize_mlp_uniform_buffers ::
  "mlp_counts \<Rightarrow> nat \<Rightarrow> 'a::zero mlp_json \<Rightarrow> 'a mlp_state \<Rightarrow> error + 'a mlp_state" where
  "initialize_mlp_uniform_buffers c mi d st =
     (let first_sub_model = length (models st);
          next_sub_model_index = length (models st)
      in
      and_then (resize_models (models st) (obj_num d)) (\<lambda>ms1.
      and_then (assign_loop (\<lambda>m. m\<lparr>model_index := int mi\<rparr>) [next_sub_model_index..<length ms1] ms1)
        (\<lambda>ms2.
      let log' = log st @ mlp_count_checks c d in
      and_then (load (mlp_weight_vector st) mi) (\<lambda>model_mlp.
      and_then (pack_mlp c d model_mlp) (\<lambda>packed.
      and_then (assign_loop (\<lambda>m. m\<lparr>sub_model_num := obj_num d\<rparr>)
                  (map (\<lambda>i. first_sub_model + i) [0..<nat (obj_num d)]) ms2) (\<lambda>ms3.
      Inr (st\<lparr>models := ms3, mlp_weight_vector := (mlp_weight_vector st)[mi := packed],
               log := log'\<rparr>)))))))"

text \<open>
  The six segments of the buffer, by the offsets at which the loops write them
  (\<open>n\<close> elements from offset \<open>off\<close>).
\<close>

definition segment :: "nat \<Rightarrow> nat \<Rightarrow> 'a list \<Rightarrow> 'a list" where
  "segment off n data = take n (drop off data)"

definition weights_0_segment :: "mlp_counts \<Rightarrow> 'a list \<Rightarrow> 'a list" where
  "weights_0_segment c data = segment 0 (WEIGHTS_0_COUNT c) data"

definition weights_1_segment :: "mlp_counts \<Rightarrow> 'a list \<Rightarrow> 'a list" where
  "weights_1_segment c data = segment (WEIGHTS_0_COUNT c) (WEIGHTS_1_COUNT c) data"

definition weights_2_segment :: "mlp_counts \<Rightarrow> 'a list \<Rightarrow> 'a list" where
  "weights_2_segment c data =
     segment (WEIGHTS_0_COUNT c + WEIGHTS_1_COUNT c) (WEIGHTS_2_COUNT c) data"

definition bias_0_segment :: "mlp_counts \<Rightarrow> 'a list \<Rightarrow> 'a list" where
  "bias_0_segment c data =
     segment (WEIGHTS_0_COUNT c + WEIGHTS_1_COUNT c + WEIGHTS_2_COUNT c) (BIAS_0_COUNT c) data"

definition bias_1_segment :: "mlp_counts \<Rightarrow> 'a list \<Rightarrow> 'a list" where
  "bias_1_segment c data =
     segment (WEIGHTS_0_COUNT c + WEIGHTS_1_COUNT c + WEIGHTS_2_COUNT c + BIAS_0_COUNT c)
       (BIAS_1_COUNT c) data"

definition bias_2_segment :: "mlp_counts \<Rightarrow> 'a list \<Rightarrow> 'a list" where
  "bias_2_segment c data =
     segment (WEIGHTS_0_COUNT c + WEIGHTS_1_COUNT c + WEIGHTS_2_COUNT c + BIAS_0_COUNT c +
              BIAS_1_COUNT c) (BIAS_2_COUNT c) data"

text \<open>
  The padding rule in the words of the specification: after every three source elements
  one zero; and its inverse, which drops every fourth element.
\<close>

fun pad_every_4th :: "'a::zero list \<Rightarrow> 'a list" where
  "pad_every_4th (a # b # c # rest) = a # b # c # 0 # pad_every_4th rest"
| "pad_every_4th rest = rest"

fun drop_every_4th :: "'a list \<Rightarrow> 'a list" where
  "drop_every_4th (a # b # c # z # rest) = a # b # c # drop_every_4th rest"
| "drop_every_4th rest = rest"

text \<open>
  The description supplies every element that the six loops read: the loops over layers
  0 and 1 read the first \<open>COUNT\<close> elements, the loop over the weights of layer 2 one element
  for each position that is not a padding position, and the loop over the bias of layer 2
  reads the element at the index of each such position.
\<close>

definition enough_elements :: "mlp_counts \<Rightarrow> 'a mlp_json \<Rightarrow> bool" where
  "enough_elements c d \<longleftrightarrow>
     WEIGHTS_0_COUNT c \<le> length (flatten (weights_0 d) []) \<and>
     WEIGHTS_1_COUNT c \<le> length (flatten (weights_1 d) []) \<and>
     WEIGHTS_2_COUNT c - WEIGHTS_2_COUNT c div 4 \<le> length (flatten (weights_2 d) []) \<and>
     BIAS_0_COUNT c \<le> length (bias_0 d) \<and>
     BIAS_1_COUNT c \<le> length (bias_1 d) \<and>
     BIAS_2_COUNT c - (if BIAS_2_COUNT c mod 4 = 0 then 1 else 0) \<le> length (bias_2 d)"

definition total_count :: "mlp_counts \<Rightarrow> nat" where
  "total_count c = WEIGHTS_0_COUNT c + WEIGHTS_1_COUNT c + WEIGHTS_2_COUNT c +
     BIAS_0_COUNT c + BIAS_1_COUNT c + BIAS_2_COUNT c"



text \<open>
  The segments that the loops over layer 2 write, position by position: what the weights
  loop writes with its counter, and what the bias loop writes without one.
\<close>

definition pad4_seg :: "nat \<Rightarrow> 'a::zero list \<Rightarrow> 'a list" where
  "pad4_seg n src = map (\<lambda>i. if (i + 1) mod 4 = 0 then 0 else src ! (i - i div 4)) [0..<n]"

definition bias_seg :: "nat \<Rightarrow> 'a::zero list \<Rightarrow> 'a list" where
  "bias_seg n src = map (\<lambda>i. if (i + 1) mod 4 = 0 then 0 else src ! i) [0..<n]"

text \<open>The buffer after the six loops, when every read was in range.\<close>

definition packed :: "mlp_counts \<Rightarrow> 'a::zero mlp_json \<Rightarrow> 'a list \<Rightarrow> 'a list" where
  "packed c d data0 =
     take (WEIGHTS_0_COUNT c) (concat (weights_0 d)) @
     take (WEIGHTS_1_COUNT c) (concat (weights_1 d)) @
     pad4_seg (WEIGHTS_2_COUNT c) (concat (weights_2 d)) @
     take (BIAS_0_COUNT c) (bias_0 d) @
     take (BIAS_1_COUNT c) (bias_1 d) @
     bias_seg (BIAS_2_COUNT c) (bias_2 d) @
     drop (total_count c) data0"

text \<open>
  The padding rule as a property of a segment \<open>seg\<close> of \<open>n\<close> elements written from the
  source \<open>src\<close>: every fourth element is zero, the other positions hold the source
  elements in their order, and when \<open>n\<close> is a multiple of four and the source has one
  element for each of the other positions, the segment is the source padded as the
  specification says, of length \<open>L + ceil (L / 3)\<close>.
\<close>

definition padded_as_specified :: "nat \<Rightarrow> 'a::zero list \<Rightarrow> 'a list \<Rightarrow> bool" where
  "padded_as_specified n src seg \<longleftrightarrow>
     length seg = n \<and>
     (\<forall>i<n. seg ! i = (if (i + 1) mod 4 = 0 then 0 else src ! (i - i div 4))) \<and>
     (4 dvd n \<and> length src = n - n div 4 \<longrightarrow>
        seg = pad_every_4th src \<and> length seg = length src + (length src + 2) div 3)"

text \<open>
  The reads \<^verbatim>\<open>weights_0_array[ii]\<close> and the like are unchecked: past the end of a vector
  they are undefined behaviour, which \<^const>\<open>load\<close> makes a failure. On the machines that
  run the sample such a read returns what the memory behind the vector holds, nothing is
  thrown, and the function goes on; the following loops are the same loops with the read
  returning \<open>behind k\<close> in that case, where \<open>k\<close> is the position of the buffer that the
  value is read for. They give the result of the loops above whenever those give one.
\<close>

definition unchecked_load :: "(nat \<Rightarrow> 'a) \<Rightarrow> 'a list \<Rightarrow> nat \<Rightarrow> nat \<Rightarrow> 'a" where
  "unchecked_load behind xs i k = (if i < length xs then xs ! i else behind k)"

fun copy_loop_unchecked ::
  "(nat \<Rightarrow> 'a) \<Rightarrow> nat \<Rightarrow> 'a list \<Rightarrow> nat list \<Rightarrow> 'a list \<Rightarrow> error + 'a list" where
  "copy_loop_unchecked behind base src [] data = Inr data"
| "copy_loop_unchecked behind base src (ii # rest) data =
     (case store data (base + ii) (unchecked_load behind src ii (base + ii)) of
        Inl e \<Rightarrow> Inl e
      | Inr data' \<Rightarrow> copy_loop_unchecked behind base src rest data')"

fun pad_weights_loop_unchecked ::
  "(nat \<Rightarrow> 'a) \<Rightarrow> nat \<Rightarrow> 'a::zero list \<Rightarrow> nat list \<Rightarrow> 'a list \<times> nat \<Rightarrow>
   error + 'a list \<times> nat" where
  "pad_weights_loop_unchecked behind base src [] (data, raw_weight_cnt) =
     Inr (data, raw_weight_cnt)"
| "pad_weights_loop_unchecked behind base src (ii # rest) (data, raw_weight_cnt) =
     (if (ii + 1) mod 4 = 0 then
        (case store data (base + ii) 0 of
           Inl e \<Rightarrow> Inl e
         | Inr data' \<Rightarrow> pad_weights_loop_unchecked behind base src rest (data', raw_weight_cnt))
      else
        (case store data (base + ii) (unchecked_load behind src raw_weight_cnt (base + ii)) of
           Inl e \<Rightarrow> Inl e
         | Inr data' \<Rightarrow>
             pad_weights_loop_unchecked behind base src rest (data', raw_weight_cnt + 1)))"

fun pad_bias_loop_unchecked ::
  "(nat \<Rightarrow> 'a) \<Rightarrow> nat \<Rightarrow> 'a::zero list \<Rightarrow> nat list \<Rightarrow> 'a list \<Rightarrow> error + 'a list" where
  "pad_bias_loop_unchecked behind base src [] data = Inr data"
| "pad_bias_loop_unchecked behind base src (ii # rest) data =
     (if (ii + 1) mod 4 = 0 then
        (case store data (base + ii) 0 of
           Inl e \<Rightarrow> Inl e
         | Inr data' \<Rightarrow> pad_bias_loop_unchecked behind base src rest data')
      else
        (case store data (base + ii) (unchecked_load behind src ii (base + ii)) of
           Inl e \<Rightarrow> Inl e
         | Inr data' \<Rightarrow> pad_bias_loop_unchecked behind base src rest data'))"

definition pack_mlp_unchecked ::
  "(nat \<Rightarrow> 'a) \<Rightarrow> mlp_counts \<Rightarrow> 'a::zero mlp_json \<Rightarrow> 'a list \<Rightarrow> error + 'a list" where
  "pack_mlp_unchecked behind c d data0 =
     (let w0 = WEIGHTS_0_COUNT c; w1 = WEIGHTS_1_COUNT c; w2 = WEIGHTS_2_COUNT c;
          b0 = BIAS_0_COUNT c; b1 = BIAS_1_COUNT c; b2 = BIAS_2_COUNT c
      in
      and_then (copy_loop_unchecked behind 0 (flatten (weights_0 d) []) [0..<w0] data0) (\<lambda>data1.
      and_then (copy_loop_unchecked behind w0 (flatten (weights_1 d) []) [0..<w1] data1) (\<lambda>data2.
      and_then (pad_weights_loop_unchecked behind (w0 + w1) (flatten (weights_2 d) []) [0..<w2]
                  (data2, 0))
        (\<lambda>(data3, raw_weight_cnt).
      and_then (copy_loop_unchecked behind (w0 + w1 + w2) (bias_0 d) [0..<b0] data3) (\<lambda>data4.
      and_then (copy_loop_unchecked behind (w0 + w1 + w2 + b0) (bias_1 d) [0..<b1] data4) (\<lambda>data5.
      pad_bias_loop_unchecked behind (w0 + w1 + w2 + b0 + b1) (bias_2 d) [0..<b2] data5))))))"

definition initialize_mlp_uniform_buffers_unchecked ::
  "(nat \<Rightarrow> 'a) \<Rightarrow> mlp_counts \<Rightarrow> nat \<Rightarrow> 'a::zero mlp_json \<Rightarrow> 'a mlp_state \<Rightarrow>
   error + 'a mlp_state" where
  "initialize_mlp_uniform_buffers_unchecked behind c mi d st =
     (let first_sub_model = length (models st);
          next_sub_model_index = length (models st)
      in
      and_then (resize_models (models st) (obj_num d)) (\<lambda>ms1.
      and_then (assign_loop (\<lambda>m. m\<lparr>model_index := int mi\<rparr>) [next_sub_model_index..<length ms1] ms1)
        (\<lambda>ms2.
      let log' = log st @ mlp_count_checks c d in
      and_then (load (mlp_weight_vector st) mi) (\<lambda>model_mlp.
      and_then (pack_mlp_unchecked behind c d model_mlp) (\<lambda>packed.
      and_then (assign_loop (\<lambda>m. m\<lparr>sub_model_num := obj_num d\<rparr>)
                  (map (\<lambda>i. first_sub_model + i) [0..<nat (obj_num d)]) ms2) (\<lambda>ms3.
      Inr (st\<lparr>models := ms3, mlp_weight_vector := (mlp_weight_vector st)[mi := packed],
               log := log'\<rparr>)))))))"

text \<open>
  The buffer after these loops: a position whose read was in range holds the element of
  the description, every fourth position of layer 2 holds zero, and a position whose read
  was past the end of its array holds what the read returned.
\<close>

definition packed_unchecked ::
  "(nat \<Rightarrow> 'a) \<Rightarrow> mlp_counts \<Rightarrow> 'a::zero mlp_json \<Rightarrow> 'a list \<Rightarrow> 'a list" where
  "packed_unchecked behind c d data0 =
     (let w0 = WEIGHTS_0_COUNT c; w1 = WEIGHTS_1_COUNT c; w2 = WEIGHTS_2_COUNT c;
          b0 = BIAS_0_COUNT c; b1 = BIAS_1_COUNT c; b2 = BIAS_2_COUNT c
      in
      map (\<lambda>ii. unchecked_load behind (concat (weights_0 d)) ii ii) [0..<w0] @
      map (\<lambda>ii. unchecked_load behind (concat (weights_1 d)) ii (w0 + ii)) [0..<w1] @
      map (\<lambda>ii. if (ii + 1) mod 4 = 0 then 0
                 else unchecked_load behind (concat (weights_2 d)) (ii - ii div 4) (w0 + w1 + ii))
        [0..<w2] @
      map (\<lambda>ii. unchecked_load behind (bias_0 d) ii (w0 + w1 + w2 + ii)) [0..<b0] @
      map (\<lambda>ii. unchecked_load behind (bias_1 d) ii (w0 + w1 + w2 + b0 + ii)) [0..<b1] @
      map (\<lambda>ii. if (ii + 1) mod 4 = 0 then 0
                 else unchecked_load behind (bias_2 d) ii (w0 + w1 + w2 + b0 + b1 + ii))
        [0..<b2] @
      drop (total_count c) data0)"

text \<open>
  An instance of the parameters for the examples: small counts, with a layer 2 of two
  groups of three weights and of one group of three biases.
\<close>

definition sample_counts :: mlp_counts where
  "sample_counts = \<lparr>WEIGHTS_0_COUNT = 4, WEIGHTS_1_COUNT = 4, WEIGHTS_2_COUNT = 8,
     BIAS_0_COUNT = 2, BIAS_1_COUNT = 2, BIAS_2_COUNT = 4\<rparr>"

definition sample_mlp :: "rat mlp_json" where
  "sample_mlp = \<lparr>obj_num = 1, weights_0 = [[11, 12], [13, 14]], bias_0 = [31, 32],
     weights_1 = [[21, 22], [23, 24]], bias_1 = [41, 42],
     weights_2 = [[1, 2, 3], [4, 5, 6]], bias_2 = [51, 52, 53]\<rparr>"

definition sample_state :: "rat mlp_state" where
  "sample_state = \<lparr>models = [], mlp_weight_vector = [replicate 24 0], log = []\<rparr>"

text \<open>
  A second instance, with the layer-2 counts that the comparisons of lines 1319 and 1326
  take for granted (64 = 48 + 16 zeros, 4 = 3 + 1 zero); a description with one element
  too many in layer 0, and one with one element too few.
\<close>

definition sample_counts_64 :: mlp_counts where
  "sample_counts_64 = \<lparr>WEIGHTS_0_COUNT = 4, WEIGHTS_1_COUNT = 4, WEIGHTS_2_COUNT = 64,
     BIAS_0_COUNT = 2, BIAS_1_COUNT = 2, BIAS_2_COUNT = 4\<rparr>"

definition surplus_mlp :: "rat mlp_json" where
  "surplus_mlp = \<lparr>obj_num = 1, weights_0 = [[11, 12], [13, 14], [15]], bias_0 = [31, 32],
     weights_1 = [[21, 22], [23, 24]], bias_1 = [41, 42],
     weights_2 = [replicate 48 7], bias_2 = [51, 52, 53]\<rparr>"

definition short_mlp :: "rat mlp_json" where
  "short_mlp = \<lparr>obj_num = 1, weights_0 = [[11, 12], [13]], bias_0 = [31, 32],
     weights_1 = [[21, 22], [23, 24]], bias_1 = [41, 42],
     weights_2 = [replicate 48 7], bias_2 = [51, 52, 53]\<rparr>"

definition sample_state_64 :: "rat mlp_state" where
  "sample_state_64 = \<lparr>models = [], mlp_weight_vector = [replicate 80 0], log = []\<rparr>"

section \<open>The render pass and the descriptor set layouts\<close>

text \<open>
  The Vulkan structures that the functions fill in, with the fields they assign. An array
  given by a count and a pointer is a list. Formats that the framework chooses (the depth
  format, the format of the swapchain) are values of \<open>VK_FORMAT_OTHER\<close>.
\<close>

datatype VkFormat =
    VK_FORMAT_R8G8B8A8_UNORM
  | VK_FORMAT_R16G16B16A16_SFLOAT
  | VK_FORMAT_R32G32B32A32_SFLOAT
  | VK_FORMAT_OTHER nat

datatype VkAttachmentLoadOp = VK_ATTACHMENT_LOAD_OP_CLEAR | VK_ATTACHMENT_LOAD_OP_DONT_CARE

datatype VkAttachmentStoreOp = VK_ATTACHMENT_STORE_OP_STORE | VK_ATTACHMENT_STORE_OP_DONT_CARE

datatype VkImageLayout =
    VK_IMAGE_LAYOUT_UNDEFINED
  | VK_IMAGE_LAYOUT_COLOR_ATTACHMENT_OPTIMAL
  | VK_IMAGE_LAYOUT_DEPTH_STENCIL_ATTACHMENT_OPTIMAL
  | VK_IMAGE_LAYOUT_SHADER_READ_ONLY_OPTIMAL
  | VK_IMAGE_LAYOUT_PRESENT_SRC_KHR

record VkAttachmentDescription =
  format :: VkFormat
  loadOp :: VkAttachmentLoadOp
  storeOp :: VkAttachmentStoreOp
  stencilLoadOp :: VkAttachmentLoadOp
  stencilStoreOp :: VkAttachmentStoreOp
  initialLayout :: VkImageLayout
  finalLayout :: VkImageLayout

record VkAttachmentReference =
  attachment :: nat
  layout :: VkImageLayout

record VkSubpassDescription =
  pColorAttachments :: "VkAttachmentReference list"
  pDepthStencilAttachment :: "VkAttachmentReference option"
  pInputAttachments :: "VkAttachmentReference list"
  pPreserveAttachments :: "nat list"

datatype subpass_index = VK_SUBPASS_EXTERNAL | Subpass nat

datatype VkPipelineStage =
    VK_PIPELINE_STAGE_BOTTOM_OF_PIPE_BIT
  | VK_PIPELINE_STAGE_COLOR_ATTACHMENT_OUTPUT_BIT
  | VK_PIPELINE_STAGE_EARLY_FRAGMENT_TESTS_BIT
  | VK_PIPELINE_STAGE_FRAGMENT_SHADER_BIT

datatype VkAccess =
    VK_ACCESS_COLOR_ATTACHMENT_WRITE_BIT
  | VK_ACCESS_DEPTH_STENCIL_ATTACHMENT_WRITE_BIT
  | VK_ACCESS_INPUT_ATTACHMENT_READ_BIT

record VkSubpassDependency =
  srcSubpass :: subpass_index
  dstSubpass :: subpass_index
  srcStageMask :: "VkPipelineStage list"
  dstStageMask :: "VkPipelineStage list"
  srcAccessMask :: "VkAccess list"
  dstAccessMask :: "VkAccess list"
  by_region :: bool

record VkRenderPassCreateInfo =
  pAttachments :: "VkAttachmentDescription list"
  pSubpasses :: "VkSubpassDescription list"
  pDependencies :: "VkSubpassDependency list"

text \<open>\<^verbatim>\<open>Nerf::update_render_pass_nerf_forward\<close>, lines 1626 to 1678.\<close>

definition update_render_pass_nerf_forward :: "VkFormat \<Rightarrow> VkFormat \<Rightarrow> VkRenderPassCreateInfo" where
  "update_render_pass_nerf_forward depth_format swapchain_format =
     (let attachments =
            [\<lparr>format = depth_format,
              loadOp = VK_ATTACHMENT_LOAD_OP_CLEAR, storeOp = VK_ATTACHMENT_STORE_OP_DONT_CARE,
              stencilLoadOp = VK_ATTACHMENT_LOAD_OP_DONT_CARE,
              stencilStoreOp = VK_ATTACHMENT_STORE_OP_STORE,
              initialLayout = VK_IMAGE_LAYOUT_UNDEFINED,
              finalLayout = VK_IMAGE_LAYOUT_DEPTH_STENCIL_ATTACHMENT_OPTIMAL\<rparr>,
             \<lparr>format = swapchain_format,
              loadOp = VK_ATTACHMENT_LOAD_OP_CLEAR, storeOp = VK_ATTACHMENT_STORE_OP_STORE,
              stencilLoadOp = VK_ATTACHMENT_LOAD_OP_DONT_CARE,
              stencilStoreOp = VK_ATTACHMENT_STORE_OP_DONT_CARE,
              initialLayout = VK_IMAGE_LAYOUT_UNDEFINED,
              finalLayout = VK_IMAGE_LAYOUT_PRESENT_SRC_KHR\<rparr>];
          depth_reference =
            \<lparr>attachment = 0, layout = VK_IMAGE_LAYOUT_DEPTH_STENCIL_ATTACHMENT_OPTIMAL\<rparr>;
          swapchain_reference =
            \<lparr>attachment = 1, layout = VK_IMAGE_LAYOUT_COLOR_ATTACHMENT_OPTIMAL\<rparr>;
          subpass =
            \<lparr>pColorAttachments = [swapchain_reference],
             pDepthStencilAttachment = Some depth_reference,
             pInputAttachments = [],
             pPreserveAttachments = []\<rparr>
      in \<lparr>pAttachments = attachments, pSubpasses = [subpass], pDependencies = []\<rparr>)"

text \<open>\<^verbatim>\<open>Nerf::update_render_pass_nerf_baseline\<close>, lines 1680 to 1816.\<close>

definition update_render_pass_nerf_baseline ::
  "VkFormat \<Rightarrow> VkFormat \<Rightarrow> VkFormat \<Rightarrow> VkRenderPassCreateInfo" where
  "update_render_pass_nerf_baseline feature_map_format depth_format swapchain_format =
     (let color_attachment = (\<lambda>f.
            \<lparr>format = f,
             loadOp = VK_ATTACHMENT_LOAD_OP_CLEAR, storeOp = VK_ATTACHMENT_STORE_OP_DONT_CARE,
             stencilLoadOp = VK_ATTACHMENT_LOAD_OP_DONT_CARE,
             stencilStoreOp = VK_ATTACHMENT_STORE_OP_DONT_CARE,
             initialLayout = VK_IMAGE_LAYOUT_UNDEFINED,
             finalLayout = VK_IMAGE_LAYOUT_COLOR_ATTACHMENT_OPTIMAL\<rparr>);
          attachments =
            [color_attachment feature_map_format,
             color_attachment feature_map_format,
             color_attachment VK_FORMAT_R16G16B16A16_SFLOAT,
             \<lparr>format = depth_format,
              loadOp = VK_ATTACHMENT_LOAD_OP_CLEAR, storeOp = VK_ATTACHMENT_STORE_OP_DONT_CARE,
              stencilLoadOp = VK_ATTACHMENT_LOAD_OP_DONT_CARE,
              stencilStoreOp = VK_ATTACHMENT_STORE_OP_STORE,
              initialLayout = VK_IMAGE_LAYOUT_UNDEFINED,
              finalLayout = VK_IMAGE_LAYOUT_DEPTH_STENCIL_ATTACHMENT_OPTIMAL\<rparr>,
             \<lparr>format = swapchain_format,
              loadOp = VK_ATTACHMENT_LOAD_OP_CLEAR, storeOp = VK_ATTACHMENT_STORE_OP_STORE,
              stencilLoadOp = VK_ATTACHMENT_LOAD_OP_DONT_CARE,
              stencilStoreOp = VK_ATTACHMENT_STORE_OP_DONT_CARE,
              initialLayout = VK_IMAGE_LAYOUT_UNDEFINED,
              finalLayout = VK_IMAGE_LAYOUT_PRESENT_SRC_KHR\<rparr>];
          color_reference_0 =
            \<lparr>attachment = 0, layout = VK_IMAGE_LAYOUT_COLOR_ATTACHMENT_OPTIMAL\<rparr>;
          color_reference_1 =
            \<lparr>attachment = 1, layout = VK_IMAGE_LAYOUT_COLOR_ATTACHMENT_OPTIMAL\<rparr>;
          color_reference_2 =
            \<lparr>attachment = 2, layout = VK_IMAGE_LAYOUT_COLOR_ATTACHMENT_OPTIMAL\<rparr>;
          depth_reference =
            \<lparr>attachment = 3, layout = VK_IMAGE_LAYOUT_DEPTH_STENCIL_ATTACHMENT_OPTIMAL\<rparr>;
          color_references_feature_maps = [color_reference_0, color_reference_1, color_reference_2];
          swapchain_reference =
            \<lparr>attachment = 4, layout = VK_IMAGE_LAYOUT_COLOR_ATTACHMENT_OPTIMAL\<rparr>;
          inputReferences =
            [\<lparr>attachment = 0, layout = VK_IMAGE_LAYOUT_SHADER_READ_ONLY_OPTIMAL\<rparr>,
             \<lparr>attachment = 1, layout = VK_IMAGE_LAYOUT_SHADER_READ_ONLY_OPTIMAL\<rparr>,
             \<lparr>attachment = 2, layout = VK_IMAGE_LAYOUT_SHADER_READ_ONLY_OPTIMAL\<rparr>];
          subpassDescriptions =
            [\<lparr>pColorAttachments = color_references_feature_maps,
              pDepthStencilAttachment = Some depth_reference,
              pInputAttachments = [],
              pPreserveAttachments = []\<rparr>,
             \<lparr>pColorAttachments = [swapchain_reference],
              pDepthStencilAttachment = None,
              pInputAttachments = inputReferences,
              pPreserveAttachments = []\<rparr>];
          dependencies =
            [\<lparr>srcSubpass = VK_SUBPASS_EXTERNAL, dstSubpass = Subpass 0,
              srcStageMask = [VK_PIPELINE_STAGE_BOTTOM_OF_PIPE_BIT],
              dstStageMask = [VK_PIPELINE_STAGE_COLOR_ATTACHMENT_OUTPUT_BIT,
                              VK_PIPELINE_STAGE_EARLY_FRAGMENT_TESTS_BIT],
              srcAccessMask = [],
              dstAccessMask = [VK_ACCESS_COLOR_ATTACHMENT_WRITE_BIT,
                               VK_ACCESS_DEPTH_STENCIL_ATTACHMENT_WRITE_BIT],
              by_region = True\<rparr>,
             \<lparr>srcSubpass = Subpass 0, dstSubpass = Subpass 1,
              srcStageMask = [VK_PIPELINE_STAGE_COLOR_ATTACHMENT_OUTPUT_BIT],
              dstStageMask = [VK_PIPELINE_STAGE_FRAGMENT_SHADER_BIT],
              srcAccessMask = [VK_ACCESS_COLOR_ATTACHMENT_WRITE_BIT],
              dstAccessMask = [VK_ACCESS_INPUT_ATTACHMENT_READ_BIT],
              by_region = True\<rparr>,
             \<lparr>srcSubpass = Subpass 1, dstSubpass = VK_SUBPASS_EXTERNAL,
              srcStageMask = [VK_PIPELINE_STAGE_COLOR_ATTACHMENT_OUTPUT_BIT],
              dstStageMask = [VK_PIPELINE_STAGE_BOTTOM_OF_PIPE_BIT],
              srcAccessMask = [VK_ACCESS_COLOR_ATTACHMENT_WRITE_BIT],
              dstAccessMask = [],
              by_region = True\<rparr>]
      in \<lparr>pAttachments = attachments, pSubpasses = subpassDescriptions,
          pDependencies = dependencies\<rparr>)"

datatype VkDescriptorType =
    VK_DESCRIPTOR_TYPE_COMBINED_IMAGE_SAMPLER
  | VK_DESCRIPTOR_TYPE_UNIFORM_BUFFER
  | VK_DESCRIPTOR_TYPE_INPUT_ATTACHMENT

datatype VkShaderStage = VK_SHADER_STAGE_VERTEX_BIT | VK_SHADER_STAGE_FRAGMENT_BIT

record VkDescriptorSetLayoutBinding =
  descriptorType :: VkDescriptorType
  stageFlags :: VkShaderStage
  binding :: nat

text \<open>
  \<^verbatim>\<open>Nerf::create_pipeline_layout_fist_pass\<close>, lines 926 to 951, and
  \<^verbatim>\<open>Nerf::create_pipeline_layout_baseline\<close>, lines 953 to 975: the bindings of the
  descriptor set layout that each creates.
\<close>

definition create_pipeline_layout_fist_pass :: "bool \<Rightarrow> VkDescriptorSetLayoutBinding list" where
  "create_pipeline_layout_fist_pass use_deferred =
     (let set_layout_bindings =
        [\<lparr>descriptorType = VK_DESCRIPTOR_TYPE_COMBINED_IMAGE_SAMPLER,
          stageFlags = VK_SHADER_STAGE_FRAGMENT_BIT, binding = 0\<rparr>,
         \<lparr>descriptorType = VK_DESCRIPTOR_TYPE_COMBINED_IMAGE_SAMPLER,
          stageFlags = VK_SHADER_STAGE_FRAGMENT_BIT, binding = 1\<rparr>,
         \<lparr>descriptorType = VK_DESCRIPTOR_TYPE_UNIFORM_BUFFER,
          stageFlags = VK_SHADER_STAGE_VERTEX_BIT, binding = 2\<rparr>]
      in if \<not> use_deferred
         then set_layout_bindings @
           [\<lparr>descriptorType = VK_DESCRIPTOR_TYPE_UNIFORM_BUFFER,
             stageFlags = VK_SHADER_STAGE_FRAGMENT_BIT, binding = 3\<rparr>]
         else set_layout_bindings)"

definition create_pipeline_layout_baseline :: "VkDescriptorSetLayoutBinding list" where
  "create_pipeline_layout_baseline =
     [\<lparr>descriptorType = VK_DESCRIPTOR_TYPE_INPUT_ATTACHMENT,
       stageFlags = VK_SHADER_STAGE_FRAGMENT_BIT, binding = 0\<rparr>,
      \<lparr>descriptorType = VK_DESCRIPTOR_TYPE_INPUT_ATTACHMENT,
       stageFlags = VK_SHADER_STAGE_FRAGMENT_BIT, binding = 1\<rparr>,
      \<lparr>descriptorType = VK_DESCRIPTOR_TYPE_INPUT_ATTACHMENT,
       stageFlags = VK_SHADER_STAGE_FRAGMENT_BIT, binding = 2\<rparr>,
      \<lparr>descriptorType = VK_DESCRIPTOR_TYPE_UNIFORM_BUFFER,
       stageFlags = VK_SHADER_STAGE_FRAGMENT_BIT, binding = 3\<rparr>]"

text \<open>
  \<^verbatim>\<open>Nerf::prepare_pipelines\<close>, lines 1066 to 1155, for the second pass: when the scene is
  deferred, one more pipeline is created, with the baseline layout, for sub-pass 1, with
  an empty vertex input, one blend attachment and no depth writes.
\<close>

datatype pipeline_layout = pipeline_first_pass_layout | pipeline_layout_baseline

record pipeline_create_info =
  pipeline_layout :: pipeline_layout
  subpass :: nat
  vertex_binding_count :: nat
  blend_attachment_count :: nat
  depthWriteEnable :: bool

definition prepare_pipelines :: "bool \<Rightarrow> nat \<Rightarrow> pipeline_create_info list \<times> pipeline_create_info option" where
  "prepare_pipelines use_deferred models_size =
     (let first = \<lparr>pipeline_layout = pipeline_first_pass_layout, subpass = 0,
                    vertex_binding_count = 2,
                    blend_attachment_count = (if use_deferred then 3 else 1),
                    depthWriteEnable = True\<rparr>
      in (replicate models_size first,
          if use_deferred
          then Some \<lparr>pipeline_layout = pipeline_layout_baseline, subpass = 1,
                     vertex_binding_count = 0, blend_attachment_count = 1,
                     depthWriteEnable = False\<rparr>
          else None))"

text \<open>
  The part of \<^verbatim>\<open>Nerf::prepare\<close> that selects the topology from \<^verbatim>\<open>use_deferred\<close>: lines 429
  to 436 (the render pass), 466 to 471 (the layouts; the baseline layout is created for a
  deferred scene only) and 483 (the pipelines).
\<close>

record topology =
  render_pass_nerf :: VkRenderPassCreateInfo
  descriptor_set_first_pass_layout :: "VkDescriptorSetLayoutBinding list"
  descriptor_set_layout_baseline :: "VkDescriptorSetLayoutBinding list option"
  pipeline_baseline :: "pipeline_create_info option"

definition select_topology :: "bool \<Rightarrow> VkFormat \<Rightarrow> VkFormat \<Rightarrow> VkFormat \<Rightarrow> nat \<Rightarrow> topology" where
  "select_topology use_deferred feature_map_format depth_format swapchain_format models_size =
     \<lparr>render_pass_nerf =
        (if use_deferred
         then update_render_pass_nerf_baseline feature_map_format depth_format swapchain_format
         else update_render_pass_nerf_forward depth_format swapchain_format),
      descriptor_set_first_pass_layout = create_pipeline_layout_fist_pass use_deferred,
      descriptor_set_layout_baseline =
        (if use_deferred then Some create_pipeline_layout_baseline else None),
      pipeline_baseline = snd (prepare_pipelines use_deferred models_size)\<rparr>"

text \<open>The number of input attachments that a descriptor set layout asks for.\<close>

definition input_attachment_count :: "VkDescriptorSetLayoutBinding list \<Rightarrow> nat" where
  "input_attachment_count bindings =
     length (filter (\<lambda>b. descriptorType b = VK_DESCRIPTOR_TYPE_INPUT_ATTACHMENT) bindings)"

section \<open>Floating-point numbers and vectors\<close>

text \<open>
  The program computes with \<^verbatim>\<open>float\<close>. Its arithmetic is a parameter of the model: a
  record of the operations that \<^verbatim>\<open>nerf.cpp\<close> applies to floats (\<open>flit\<close> is the value of a
  literal, \<open>fpi\<close> is \<^verbatim>\<open>glm::pi<float>()\<close>, the last two are the conversions from and to
  \<^verbatim>\<open>int\<close>), about which nothing is assumed unless a theorem says so. The literal \<^verbatim>\<open>0.0f\<close>
  is the \<open>0\<close> of the type.
  \<^verbatim>\<open>glm::vec3\<close> and \<^verbatim>\<open>glm::ivec3\<close> are triples.
\<close>

record 'f float_ops =
  fadd :: "'f \<Rightarrow> 'f \<Rightarrow> 'f"
  fmul :: "'f \<Rightarrow> 'f \<Rightarrow> 'f"
  fdiv :: "'f \<Rightarrow> 'f \<Rightarrow> 'f"
  fneg :: "'f \<Rightarrow> 'f"
  fle :: "'f \<Rightarrow> 'f \<Rightarrow> bool"
  flit :: "rat \<Rightarrow> 'f"
  fpi :: "'f"
  int_to_float :: "int \<Rightarrow> 'f"
  float_to_int :: "'f \<Rightarrow> int"

type_synonym 'f vec3 = "'f \<times> 'f \<times> 'f"
type_synonym ivec3 = "int \<times> int \<times> int"

section \<open>The scene configuration\<close>

text \<open>
  JSON documents, and the accessors of the JSON library (which is not part of the
  sources) as its documentation describes them for a document that is not \<^verbatim>\<open>const\<close>:
  \<^verbatim>\<open>operator[]\<close> with a key gives \<^verbatim>\<open>null\<close> for \<^verbatim>\<open>null\<close> and for an object without the key and
  throws for any other value that is not an object; \<^verbatim>\<open>operator[]\<close> with an index gives
  \<^verbatim>\<open>null\<close> for \<^verbatim>\<open>null\<close> and past the end of an array and throws for any other value that is
  not an array; \<^verbatim>\<open>get\<close> throws when the value has not the type asked for, where a number
  can also be read from a boolean. A number is modelled by the two values that the code
  reads from it, the one \<^verbatim>\<open>get<int>()\<close> returns and the one \<^verbatim>\<open>get<float>()\<close> returns.
\<close>

datatype 'f json =
    JNull
  | JBool bool
  | JNumber int 'f
  | JString string
  | JArray "'f json list"
  | JObject "(string \<times> 'f json) list"

fun member :: "string \<Rightarrow> 'f json \<Rightarrow> error + 'f json" where
  "member k JNull = Inr JNull"
| "member k (JObject kvs) = Inr (case map_of kvs k of None \<Rightarrow> JNull | Some v \<Rightarrow> v)"
| "member k _ = Inl JsonException"

fun element :: "nat \<Rightarrow> 'f json \<Rightarrow> error + 'f json" where
  "element i JNull = Inr JNull"
| "element i (JArray vs) = Inr (if i < length vs then vs ! i else JNull)"
| "element i _ = Inl JsonException"

fun is_null :: "'f json \<Rightarrow> bool" where
  "is_null JNull = True"
| "is_null _ = False"

fun is_array :: "'f json \<Rightarrow> bool" where
  "is_array (JArray vs) = True"
| "is_array _ = False"

fun json_size :: "'f json \<Rightarrow> nat" where
  "json_size JNull = 0"
| "json_size (JArray vs) = length vs"
| "json_size (JObject kvs) = length kvs"
| "json_size _ = 1"

fun get_string :: "'f json \<Rightarrow> error + string" where
  "get_string (JString s) = Inr s"
| "get_string _ = Inl JsonException"

fun get_bool :: "'f json \<Rightarrow> error + bool" where
  "get_bool (JBool b) = Inr b"
| "get_bool _ = Inl JsonException"

fun get_int :: "'f json \<Rightarrow> error + int" where
  "get_int (JNumber i f) = Inr i"
| "get_int (JBool b) = Inr (if b then 1 else 0)"
| "get_int _ = Inl JsonException"

fun get_float :: "'f::zero float_ops \<Rightarrow> 'f json \<Rightarrow> error + 'f" where
  "get_float ops (JNumber i f) = Inr f"
| "get_float ops (JBool b) = Inr (if b then flit ops 1 else 0)"
| "get_float ops _ = Inl JsonException"

text \<open>What \<^verbatim>\<open>read_json_map\<close> stores in the members of \<^verbatim>\<open>Nerf\<close>.\<close>

record 'f scene =
  combo_mode :: bool
  model_path :: "string list"
  using_original_nerf_models :: "bool list"
  feature_map_format :: VkFormat
  use_deferred :: bool
  do_rotation :: bool
  view_port_width :: int
  view_port_height :: int
  camera_pos :: "'f vec3"
  instancing_dim :: ivec3
  instancing_interval :: "'f vec3"

text \<open>Lines 290 to 295: the paths and flags of a combo scene, one index after the other.\<close>

fun read_combo_models ::
  "'f json \<Rightarrow> nat list \<Rightarrow> error + (string \<times> bool) list" where
  "read_combo_models asset_map [] = Inr []"
| "read_combo_models asset_map (i # rest) =
     and_then (member ''models'' asset_map) (\<lambda>ms.
     and_then (element i ms) (\<lambda>m.
     and_then (get_string m) (\<lambda>path.
     and_then (member ''original'' asset_map) (\<lambda>os.
     and_then (element i os) (\<lambda>og.
     and_then (get_bool og) (\<lambda>original.
     and_then (read_combo_models asset_map rest) (\<lambda>more.
     Inr ((path, original) # more))))))))"

text \<open>
  Lines 339 to 367: three numbers of a field that must be an array of three; \<open>None\<close> when
  it is not one.
\<close>

definition read_triple ::
  "('f json \<Rightarrow> error + 'a) \<Rightarrow> 'f json \<Rightarrow> error + ('a \<times> 'a \<times> 'a) option" where
  "read_triple get field =
     (if is_array field \<and> json_size field = 3 then
        and_then (element 0 field) (\<lambda>e0. and_then (get e0) (\<lambda>a.
        and_then (element 1 field) (\<lambda>e1. and_then (get e1) (\<lambda>b.
        and_then (element 2 field) (\<lambda>e2. and_then (get e2) (\<lambda>c.
        Inr (Some (a, b, c))))))))
      else Inr None)"

text \<open>Lines 306 to 332.\<close>

definition texture_format :: "string \<Rightarrow> VkFormat" where
  "texture_format textureType =
     (if textureType = ''8bit'' then VK_FORMAT_R8G8B8A8_UNORM
      else if textureType = ''16bit'' then VK_FORMAT_R16G16B16A16_SFLOAT
      else if textureType = ''32bit'' then VK_FORMAT_R32G32B32A32_SFLOAT
      else if textureType = ''8bit'' then VK_FORMAT_R8G8B8A8_UNORM
      else VK_FORMAT_R32G32B32A32_SFLOAT)"

text \<open>Lines 285 to 304: the paths of the models and their flags.\<close>

definition read_models :: "'f json \<Rightarrow> bool \<Rightarrow> error + (string \<times> bool) list" where
  "read_models asset_map combo_mode' =
     (if combo_mode' then
        and_then (member ''models'' asset_map) (\<lambda>ms.
          read_combo_models asset_map [0..<json_size ms])
      else
        and_then (member ''path'' asset_map) (\<lambda>p.
        and_then (get_string p) (\<lambda>path.
        and_then (member ''original'' asset_map) (\<lambda>orig.
        and_then (get_bool orig) (\<lambda>original.
        Inr [(path, original)])))))"

text \<open>
  Lines 348 to 373: the instancing parameters. The dimension is read as three \<^verbatim>\<open>int\<close>s,
  passed through a \<^verbatim>\<open>glm::vec3\<close> and stored in the integer vector
  \<^verbatim>\<open>instancing_info.dim\<close> (the specification's "3D integer dimension"; the structure is
  declared in \<^verbatim>\<open>nerf.h\<close>).
\<close>

definition check_instancing ::
  "'f::zero float_ops \<Rightarrow> int \<times> int \<times> int \<Rightarrow> 'f vec3 \<Rightarrow> error + ivec3 \<times> 'f vec3" where
  "check_instancing ops d i =
     (case d of (d0, d1, d2) \<Rightarrow> (case i of (i0, i1, i2) \<Rightarrow>
        (let dim_x = float_to_int ops (int_to_float ops d0);
             dim_y = float_to_int ops (int_to_float ops d1);
             dim_z = float_to_int ops (int_to_float ops d2)
         in if dim_x \<le> 0 \<or> dim_y \<le> 0 \<or> dim_z \<le> 0 \<or>
               fle ops i0 0 \<or> fle ops i1 0 \<or> fle ops i2 0
            then Inl (Exit 1)
            else Inr ((dim_x, dim_y, dim_z), (i0, i1, i2)))))"

definition read_instancing :: "'f::zero float_ops \<Rightarrow> 'f json \<Rightarrow> error + ivec3 \<times> 'f vec3" where
  "read_instancing ops asset_map =
     and_then (member ''instancing'' asset_map) (\<lambda>instacing_map.
     and_then (member ''dim'' instacing_map) (\<lambda>dm.
     and_then (read_triple get_int dm) (\<lambda>dimension.
       (case dimension of
          None \<Rightarrow> Inl (Exit 1)
        | Some d \<Rightarrow>
            and_then (member ''interval'' instacing_map) (\<lambda>iv.
            and_then (read_triple (get_float ops) iv) (\<lambda>interval.
              (case interval of
                 None \<Rightarrow> Inl (Exit 1)
               | Some i \<Rightarrow> check_instancing ops d i)))))))"

text \<open>
  \<^verbatim>\<open>Nerf::read_json_map\<close>, lines 178 to 374, from the parsed document on. The argument
  \<open>camera_pos0\<close> is the value that the member \<^verbatim>\<open>camera_pos\<close> has before the call, which
  stays when the field \<^verbatim>\<open>camera\<close> is not an array of three. The messages that the function
  logs are left out.
\<close>

definition read_json_map ::
  "'f::zero float_ops \<Rightarrow> 'f vec3 \<Rightarrow> 'f json \<Rightarrow> error + 'f scene" where
  "read_json_map ops camera_pos0 raw_asset_map =
     and_then (member ''target_model'' raw_asset_map) (\<lambda>tm.
     and_then (get_string tm) (\<lambda>target_model.
     and_then (member target_model raw_asset_map) (\<lambda>asset_map.
     and_then (member ''combo'' asset_map) (\<lambda>combo.
     and_then (if \<not> is_null combo then get_bool combo else Inr False) (\<lambda>combo_mode'.
     and_then (read_models asset_map combo_mode') (\<lambda>paths.
     and_then (member ''texture_type'' raw_asset_map) (\<lambda>tt.
     and_then (get_string tt) (\<lambda>textureType.
     and_then (member ''deferred'' raw_asset_map) (\<lambda>df.
     and_then (get_bool df) (\<lambda>use_deferred'.
     and_then (member ''rotation'' raw_asset_map) (\<lambda>rt.
     and_then (get_bool rt) (\<lambda>do_rotation'.
     and_then (member ''width'' raw_asset_map) (\<lambda>wd.
     and_then (get_int wd) (\<lambda>view_port_width'.
     and_then (member ''height'' raw_asset_map) (\<lambda>ht.
     and_then (get_int ht) (\<lambda>view_port_height'.
     and_then (member ''camera'' asset_map) (\<lambda>cam.
     and_then (read_triple (get_float ops) cam) (\<lambda>camera.
     and_then (read_instancing ops asset_map) (\<lambda>(dimension, interval).
       Inr \<lparr>combo_mode = combo_mode',
            model_path = map fst paths,
            using_original_nerf_models = map snd paths,
            feature_map_format = texture_format textureType,
            use_deferred = use_deferred',
            do_rotation = do_rotation',
            view_port_width = view_port_width',
            view_port_height = view_port_height',
            camera_pos = (case camera of None \<Rightarrow> camera_pos0 | Some v \<Rightarrow> v),
            instancing_dim = dimension,
            instancing_interval = interval\<rparr>)))))))))))))))))))"

section \<open>The start of prepare\<close>

text \<open>
  \<^verbatim>\<open>vkb::Camera\<close> and the functions of glm that \<^verbatim>\<open>camera_set_look_at\<close> calls are not part
  of the sources. The camera is the record of what its setters store; the functions of
  glm are parameters: \<open>glm_lookAt\<close> gives the view matrix, \<open>glm_decompose\<close> its orientation
  and translation, \<open>glm_eulerAngles\<close> the angles of an orientation.
\<close>

datatype CameraType = LookAt | FirstPerson

record 'f camera =
  camera_type :: CameraType
  position :: "'f vec3"
  rotation :: "'f vec3"
  perspective :: "('f \<times> 'f \<times> 'f \<times> 'f) option"

record ('f, 'm, 'q) glm =
  glm_lookAt :: "'f vec3 \<Rightarrow> 'f vec3 \<Rightarrow> 'f vec3 \<Rightarrow> 'm"
  glm_decompose :: "'m \<Rightarrow> 'q \<times> 'f vec3"
  glm_eulerAngles :: "'q \<Rightarrow> 'f vec3"

definition set_position :: "'f camera \<Rightarrow> 'f vec3 \<Rightarrow> 'f camera" where
  "set_position cam p = cam\<lparr>position := p\<rparr>"

definition set_rotation :: "'f camera \<Rightarrow> 'f vec3 \<Rightarrow> 'f camera" where
  "set_rotation cam r = cam\<lparr>rotation := r\<rparr>"

definition set_perspective :: "'f camera \<Rightarrow> 'f \<Rightarrow> 'f \<Rightarrow> 'f \<Rightarrow> 'f \<Rightarrow> 'f camera" where
  "set_perspective cam fov aspect znear zfar = cam\<lparr>perspective := Some (fov, aspect, znear, zfar)\<rparr>"

text \<open>\<^verbatim>\<open>camera_set_look_at\<close>, lines 78 to 91.\<close>

definition camera_set_look_at ::
  "('f, 'm, 'q) glm \<Rightarrow> 'f float_ops \<Rightarrow> 'f camera \<Rightarrow> 'f vec3 \<Rightarrow> 'f vec3 \<Rightarrow> 'f camera" where
  "camera_set_look_at g ops cam look up =
     (let view_matrix = glm_lookAt g (position cam) look up;
          (orientation, translation) = glm_decompose g view_matrix;
          (ex, ey, ez) = glm_eulerAngles g orientation;
          scaled = (fdiv ops (fmul ops ex (fpi ops)) (flit ops 180),
                    fdiv ops (fmul ops ey (fpi ops)) (flit ops 180),
                    fdiv ops (fmul ops ez (fpi ops)) (flit ops 180))
      in set_position (set_rotation cam scaled) translation)"

text \<open>
  Lines 443 to 448 of \<^verbatim>\<open>Nerf::prepare\<close>: the camera. \<open>width\<close> and \<open>height\<close> are the
  size of the window.
\<close>

definition prepare_camera ::
  "('f, 'm, 'q) glm \<Rightarrow> 'f::zero float_ops \<Rightarrow> int \<Rightarrow> int \<Rightarrow> 'f camera \<Rightarrow> 'f vec3 \<Rightarrow> 'f camera" where
  "prepare_camera g ops width height cam pos =
     (case pos of (px, py, pz) \<Rightarrow>
        (let cam1 = cam\<lparr>camera_type := LookAt\<rparr>;
             flipped = (px, fneg ops py, pz);
             cam2 = set_position cam1 flipped;
             cam3 = camera_set_look_at g ops cam2 (0, 0, 0) (0, flit ops 1, 0)
         in set_perspective cam3 (flit ops 60)
              (fdiv ops (int_to_float ops width) (int_to_float ops height))
              (flit ops (1 / 100)) (flit ops 256)))"

text \<open>
  What \<^verbatim>\<open>prepare\<close> takes from outside the sources: the parsed \<^verbatim>\<open>mlp.json\<close> found under a
  model path, if the file can be opened; the result of \<^verbatim>\<open>ApiVulkanSample::prepare\<close>, the
  first call that creates resources of the GPU (instance, device, swapchain); the size of
  the window and the formats that the framework has chosen; the camera of the framework.
\<close>

record ('f, 'm, 'q) framework =
  mlp_file :: "string \<Rightarrow> 'f mlp_json option"
  api_prepare :: bool
  window_width :: int
  window_height :: int
  depth_format :: VkFormat
  swapchain_format :: VkFormat
  framework_camera :: "'f camera"
  glm_library :: "('f, 'm, 'q) glm"

text \<open>Lines 408 to 413: one zeroed \<^verbatim>\<open>MLP_Weights\<close> for each model path, then the loop.\<close>

fun initialize_loop ::
  "mlp_counts \<Rightarrow> (string \<Rightarrow> 'f::zero mlp_json option) \<Rightarrow> string list \<Rightarrow> nat list \<Rightarrow>
   'f mlp_state \<Rightarrow> error + 'f mlp_state" where
  "initialize_loop c file paths [] st = Inr st"
| "initialize_loop c file paths (i # rest) st =
     and_then (load paths i) (\<lambda>path.
     and_then (case file path of None \<Rightarrow> Inl FileNotFound | Some d \<Rightarrow> Inr d) (\<lambda>d.
     and_then (initialize_mlp_uniform_buffers c i d st) (initialize_loop c file paths rest)))"

text \<open>
  Modelled from the spec: \<^verbatim>\<open>MLP_Weights\<close> is declared in \<^verbatim>\<open>nerf.h\<close>; by the specification it
  is the flat array of the three weight matrices and the three bias vectors, so its
  length is the sum of the six counts.
\<close>

definition MLP_Weights_zero :: "mlp_counts \<Rightarrow> 'f::zero list" where
  "MLP_Weights_zero c = replicate (total_count c) 0"

text \<open>
  \<^verbatim>\<open>Nerf::prepare\<close>, lines 403 to 448. The first component of the result says whether
  \<^verbatim>\<open>ApiVulkanSample::prepare\<close> has been called, before which no resource of the GPU
  exists. Of the calls between lines 420 and 441 the model keeps the choice of the render
  pass; the result is the state at line 448.
\<close>

record 'f prepared =
  the_scene :: "'f scene"
  the_mlp_state :: "'f mlp_state"
  the_render_pass :: VkRenderPassCreateInfo
  the_camera :: "'f camera"

definition prepare ::
  "'f::zero float_ops \<Rightarrow> mlp_counts \<Rightarrow> ('f, 'm, 'q) framework \<Rightarrow> 'f vec3 \<Rightarrow> 'f json \<Rightarrow>
   bool \<times> (error + 'f prepared)" where
  "prepare ops c fw camera_pos0 raw_asset_map =
     (case read_json_map ops camera_pos0 raw_asset_map of
        Inl e \<Rightarrow> (False, Inl e)
      | Inr sc \<Rightarrow>
          (case initialize_loop c (mlp_file fw) (model_path sc) [0..<length (model_path sc)]
                  \<lparr>models = [],
                   mlp_weight_vector = replicate (length (model_path sc)) (MLP_Weights_zero c),
                   log = []\<rparr> of
             Inl e \<Rightarrow> (False, Inl e)
           | Inr st \<Rightarrow>
               if \<not> api_prepare fw then (True, Inl PrepareFailed)
               else
                 (True,
                  Inr \<lparr>the_scene = sc,
                       the_mlp_state = st,
                       the_render_pass =
                         (if use_deferred sc
                          then update_render_pass_nerf_baseline (feature_map_format sc)
                                 (depth_format fw) (swapchain_format fw)
                          else update_render_pass_nerf_forward (depth_format fw)
                                 (swapchain_format fw)),
                       the_camera =
                         prepare_camera (glm_library fw) ops (window_width fw)
                           (window_height fw) (framework_camera fw) (camera_pos sc)\<rparr>)))"

text \<open>
  The configurations of claim C4, in terms of the document: the field \<^verbatim>\<open>instancing\<close> of
  the target scene has a \<^verbatim>\<open>dim\<close> or an \<^verbatim>\<open>interval\<close> that is not an array of three, or one of
  the three numbers of \<^verbatim>\<open>dim\<close> is at most 0, or one of the three numbers of \<^verbatim>\<open>interval\<close> is.
\<close>

definition target_asset_map :: "'f json \<Rightarrow> error + 'f json" where
  "target_asset_map raw_asset_map =
     and_then (member ''target_model'' raw_asset_map) (\<lambda>tm.
     and_then (get_string tm) (\<lambda>target_model. member target_model raw_asset_map))"

definition three_array :: "'f json \<Rightarrow> bool" where
  "three_array field \<longleftrightarrow> is_array field \<and> json_size field = 3"

definition has_component :: "('f json \<Rightarrow> error + 'a) \<Rightarrow> ('a \<Rightarrow> bool) \<Rightarrow> 'f json \<Rightarrow> bool" where
  "has_component get P field \<longleftrightarrow>
     (\<exists>i\<in>{0, 1, 2}. case and_then (element i field) get of Inl e \<Rightarrow> False | Inr v \<Rightarrow> P v)"

definition bad_instancing :: "'f::zero float_ops \<Rightarrow> 'f json \<Rightarrow> bool" where
  "bad_instancing ops raw_asset_map \<longleftrightarrow>
     (case and_then (target_asset_map raw_asset_map) (member ''instancing'') of
        Inl e \<Rightarrow> False
      | Inr instancing \<Rightarrow>
          (case (member ''dim'' instancing, member ''interval'' instancing) of
             (Inr dm, Inr iv) \<Rightarrow>
               \<not> three_array dm \<or> \<not> three_array iv \<or>
               has_component get_int (\<lambda>n. n \<le> 0) dm \<or>
               has_component (get_float ops) (\<lambda>v. fle ops v 0) iv
           | _ \<Rightarrow> False))"

section \<open>Instances of the parameters for the examples\<close>

text \<open>
  Exact arithmetic on the rationals, as an instance of the float operations: every
  operation is the one of the field, a literal is its value, the conversion to \<^verbatim>\<open>int\<close>
  truncates.
\<close>

definition exact_ops :: "rat float_ops" where
  "exact_ops = \<lparr>fadd = (+), fmul = (*), fdiv = (/), fneg = uminus, fle = (\<le>),
     flit = (\<lambda>q. q), fpi = 13176795 / 4194304,
     int_to_float = of_int, float_to_int = (\<lambda>q. if 0 \<le> q then \<lfloor>q\<rfloor> else \<lceil>q\<rceil>)\<rparr>"

text \<open>
  A scene document in the shape of the one that lines 199 to 270 build in, with one model;
  the same with a dimension of 0; a framework whose files hold the sample description,
  and whose glm gives the eye position for the view matrix, so that it shows in the
  result.
\<close>

definition scene_entry :: "rat json \<Rightarrow> rat json" where
  "scene_entry dimension =
     JObject [(''path'', JString ''scenes/lego_ball_phone/''),
              (''num_sub_model'', JNumber 1 1),
              (''original'', JBool False),
              (''camera'', JArray [JNumber (-1) (-1), JNumber 1 1, JNumber 1 1]),
              (''instancing'',
                 JObject [(''dim'', dimension),
                          (''interval'', JArray [JNumber 2 2, JNumber 2 2, JNumber 2 2])])]"

definition sample_document :: "rat json \<Rightarrow> rat json" where
  "sample_document dimension =
     JObject [(''width'', JNumber 0 0), (''height'', JNumber 0 0),
              (''texture_type'', JString ''8bit''),
              (''target_model'', JString ''lego_ball''),
              (''deferred'', JBool False), (''rotation'', JBool True),
              (''lego_ball'', scene_entry dimension)]"

definition sample_framework :: "(rat, rat vec3, unit) framework" where
  "sample_framework =
     \<lparr>mlp_file = (\<lambda>path. if path = ''scenes/lego_ball_phone/'' then Some sample_mlp else None),
      api_prepare = True, window_width = 1280, window_height = 720,
      depth_format = VK_FORMAT_OTHER 0, swapchain_format = VK_FORMAT_OTHER 1,
      framework_camera =
        \<lparr>camera_type = FirstPerson, position = (0, 0, 0), rotation = (0, 0, 0),
         perspective = None\<rparr>,
      glm_library =
        \<lparr>glm_lookAt = (\<lambda>eye look up. eye), glm_decompose = (\<lambda>m. ((), m)),
         glm_eulerAngles = (\<lambda>q. (0, 0, 0))\<rparr>\<rparr>"

section \<open>The arithmetic of the machine\<close>

text \<open>
  The components of \<^verbatim>\<open>instancing_info.dim\<close> are \<^verbatim>\<open>int\<close>s of 32 bits: a product or a
  difference that leaves their range is undefined behaviour.
\<close>

definition INT_MAX :: int where
  "INT_MAX = 2147483647"

definition INT_MIN :: int where
  "INT_MIN = - 2147483648"

definition checked_int :: "int \<Rightarrow> error + int" where
  "checked_int i = (if INT_MIN \<le> i \<and> i \<le> INT_MAX then Inr i else Inl IntOverflow)"

text \<open>
  The arithmetic of \<^verbatim>\<open>float\<close> on the machines that run the sample: IEEE 754 binary32, every
  operation rounded to the nearest value, ties to the even significand. A finite value is
  \<open>m * 2 ^ e\<close> with \<open>\<bar>m\<bar> < 2 ^ 24\<close> and \<open>- 149 \<le> e \<le> 104\<close>; the exponent of the rounding of \<open>q\<close>
  is the least \<open>e\<close> from \<open>- 149\<close> on with \<open>\<bar>q\<bar> < 2 ^ (e + 24)\<close>. The model is of the finite
  values: where the machine gives an infinity, from \<open>2 ^ 128\<close> on, it rounds at the exponent
  104, and a division by zero follows the rationals of HOL; the statements about it keep
  below \<open>2 ^ 128\<close>. The conversion to \<^verbatim>\<open>int\<close> truncates; of a value outside the range of
  \<^verbatim>\<open>int\<close> it is undefined in C++, and gives the least \<^verbatim>\<open>int\<close> here, as the conversion
  instruction of x86 does.
\<close>

definition pow2 :: "int \<Rightarrow> rat" where
  "pow2 e = (if 0 \<le> e then 2 ^ nat e else 1 / 2 ^ nat (- e))"

function ulp_search :: "rat \<Rightarrow> rat \<Rightarrow> int \<Rightarrow> int" where
  "ulp_search a p e = (if a < p \<or> 104 \<le> e then e else ulp_search a (2 * p) (e + 1))"
  by pat_completeness auto
termination
  by (relation "measure (\<lambda>(a, p, e). nat (104 - e))") auto

declare ulp_search.simps [simp del]

definition ulp_exponent :: "rat \<Rightarrow> int" where
  "ulp_exponent q = ulp_search \<bar>q\<bar> (pow2 (- 125)) (- 149)"

definition round_half_even :: "rat \<Rightarrow> int" where
  "round_half_even q =
     (let f = \<lfloor>q\<rfloor>; r = q - of_int f
      in if r < 1 / 2 then f else if 1 / 2 < r then f + 1 else if even f then f else f + 1)"

definition binary32_round :: "rat \<Rightarrow> rat" where
  "binary32_round q = (let e = ulp_exponent q in of_int (round_half_even (q / pow2 e)) * pow2 e)"

definition binary32_ops :: "rat float_ops" where
  "binary32_ops =
     \<lparr>fadd = (\<lambda>a b. binary32_round (a + b)), fmul = (\<lambda>a b. binary32_round (a * b)),
      fdiv = (\<lambda>a b. binary32_round (a / b)), fneg = uminus, fle = (\<le>),
      flit = binary32_round, fpi = 13176795 / 4194304,
      int_to_float = (\<lambda>i. binary32_round (of_int i)),
      float_to_int =
        (\<lambda>q. let t = (if 0 \<le> q then \<lfloor>q\<rfloor> else \<lceil>q\<rceil>)
              in if INT_MIN \<le> t \<and> t \<le> INT_MAX then t else INT_MIN)\<rparr>"

section \<open>The instancing lattice\<close>

text \<open>\<^verbatim>\<open>ii.dim.x * ii.dim.y * ii.dim.z\<close>, at lines 801 and 1423.\<close>

definition lattice_size :: "ivec3 \<Rightarrow> error + int" where
  "lattice_size d =
     (case d of (dx, dy, dz) \<Rightarrow>
        and_then (checked_int (dx * dy)) (\<lambda>xy. checked_int (xy * dz)))"

text \<open>Lines 1433 to 1436: the offset of the instance at the lattice coordinate \<open>(x, y, z)\<close>.\<close>

definition pos_offset :: "'f float_ops \<Rightarrow> 'f vec3 \<Rightarrow> 'f vec3 \<Rightarrow> int \<Rightarrow> int \<Rightarrow> int \<Rightarrow> 'f vec3" where
  "pos_offset ops corner_pos interval x y z =
     (case corner_pos of (cx, cy, cz) \<Rightarrow> (case interval of (ix, iy, iz) \<Rightarrow>
        (fadd ops cx (fmul ops ix (int_to_float ops x)),
         fadd ops cy (fmul ops iy (int_to_float ops y)),
         fadd ops cz (fmul ops iz (int_to_float ops z)))))"

text \<open>
  Lines 1427 to 1439: the three nested loops. Each takes the values that its variable
  runs through; the state is the vector and the index \<^verbatim>\<open>idx\<close>.
\<close>

fun z_loop ::
  "'f float_ops \<Rightarrow> 'f vec3 \<Rightarrow> 'f vec3 \<Rightarrow> int \<Rightarrow> int \<Rightarrow> int list \<Rightarrow>
   'f vec3 list \<times> nat \<Rightarrow> error + 'f vec3 list \<times> nat" where
  "z_loop ops corner_pos interval x y [] (instance_data, idx) = Inr (instance_data, idx)"
| "z_loop ops corner_pos interval x y (z # zs) (instance_data, idx) =
     and_then (store instance_data idx (pos_offset ops corner_pos interval x y z))
       (\<lambda>instance_data'. z_loop ops corner_pos interval x y zs (instance_data', idx + 1))"

fun y_loop ::
  "'f float_ops \<Rightarrow> 'f vec3 \<Rightarrow> 'f vec3 \<Rightarrow> int \<Rightarrow> int list \<Rightarrow> int list \<Rightarrow>
   'f vec3 list \<times> nat \<Rightarrow> error + 'f vec3 list \<times> nat" where
  "y_loop ops corner_pos interval x [] zs st = Inr st"
| "y_loop ops corner_pos interval x (y # ys) zs st =
     and_then (z_loop ops corner_pos interval x y zs st)
       (y_loop ops corner_pos interval x ys zs)"

fun x_loop ::
  "'f float_ops \<Rightarrow> 'f vec3 \<Rightarrow> 'f vec3 \<Rightarrow> int list \<Rightarrow> int list \<Rightarrow> int list \<Rightarrow>
   'f vec3 list \<times> nat \<Rightarrow> error + 'f vec3 list \<times> nat" where
  "x_loop ops corner_pos interval [] ys zs st = Inr st"
| "x_loop ops corner_pos interval (x # xs) ys zs st =
     and_then (y_loop ops corner_pos interval x ys zs st)
       (x_loop ops corner_pos interval xs ys zs)"

text \<open>The values of \<^verbatim>\<open>for (int x = 0; x < n; ++x)\<close>.\<close>

definition int_range :: "int \<Rightarrow> int list" where
  "int_range n = map int [0..<nat n]"

text \<open>
  \<^verbatim>\<open>Nerf::prepare_instance_data\<close>, lines 1418 to 1439: the vector of offsets that is then
  uploaded. \<^verbatim>\<open>resize\<close> takes the product as a \<^verbatim>\<open>size_t\<close>, so a negative product asks for
  more than any vector holds; the new elements are zero.
\<close>

definition prepare_instance_data ::
  "'f::zero float_ops \<Rightarrow> ivec3 \<Rightarrow> 'f vec3 \<Rightarrow> error + 'f vec3 list" where
  "prepare_instance_data ops d interval =
     (case d of (dx, dy, dz) \<Rightarrow> (case interval of (ix, iy, iz) \<Rightarrow>
        and_then (lattice_size d) (\<lambda>n.
        and_then (if n < 0 then Inl LengthError else Inr (replicate (nat n) (0, 0, 0)))
          (\<lambda>instance_data.
        and_then (checked_int (dx - 1)) (\<lambda>dx1.
        and_then (checked_int (dy - 1)) (\<lambda>dy1.
        and_then (checked_int (dz - 1)) (\<lambda>dz1.
        let corner_pos =
              (fmul ops (fmul ops (fneg ops ix) (flit ops (1 / 2))) (int_to_float ops dx1),
               fmul ops (fmul ops (fneg ops iy) (flit ops (1 / 2))) (int_to_float ops dy1),
               fmul ops (fmul ops (fneg ops iz) (flit ops (1 / 2))) (int_to_float ops dz1))
        in and_then (x_loop ops corner_pos interval (int_range dx) (int_range dy) (int_range dz)
                       (instance_data, 0))
             (\<lambda>(instance_data', idx). Inr instance_data'))))))))"

text \<open>The corner of the lattice, as line 1425 computes it.\<close>

definition corner :: "'f float_ops \<Rightarrow> ivec3 \<Rightarrow> 'f vec3 \<Rightarrow> 'f vec3" where
  "corner ops d interval =
     (case d of (dx, dy, dz) \<Rightarrow> (case interval of (ix, iy, iz) \<Rightarrow>
        (fmul ops (fmul ops (fneg ops ix) (flit ops (1 / 2))) (int_to_float ops (dx - 1)),
         fmul ops (fmul ops (fneg ops iy) (flit ops (1 / 2))) (int_to_float ops (dy - 1)),
         fmul ops (fmul ops (fneg ops iz) (flit ops (1 / 2))) (int_to_float ops (dz - 1)))))"

definition vneg :: "'f float_ops \<Rightarrow> 'f vec3 \<Rightarrow> 'f vec3" where
  "vneg ops v = (case v of (a, b, c) \<Rightarrow> (fneg ops a, fneg ops b, fneg ops c))"

text \<open>The offsets of a lattice in the order of the three loops: \<open>x\<close> outermost.\<close>

definition lattice ::
  "'f float_ops \<Rightarrow> 'f vec3 \<Rightarrow> 'f vec3 \<Rightarrow> int list \<Rightarrow> int list \<Rightarrow> int list \<Rightarrow> 'f vec3 list" where
  "lattice ops corner_pos interval xs ys zs =
     concat (map (\<lambda>x. concat (map (\<lambda>y. map (pos_offset ops corner_pos interval x y) zs) ys)) xs)"

text \<open>
  Three conditions on an interval component \<open>i\<close> and the dimension \<open>n\<close> of its axis, for
  the statements about the lattice in the arithmetic of \<^verbatim>\<open>float\<close>.
  \<^item> \<open>finite_range\<close>: the products of the interval with the lattice coordinates stay far
    below \<open>2 ^ 128\<close>, so that every value computed is finite.
  \<^item> \<open>unrounded\<close>, of \<open>i = m * 2 ^ e\<close>: the products of the significand \<open>m\<close> with the
    lattice coordinates fit the 24 bits of a significand, so that no operation of
    \<^verbatim>\<open>prepare_instance_data\<close> rounds. The intervals 2.0 and 1.5 of the built-in scenes
    (lines 221 to 266) are \<open>1 * 2 ^ 1\<close> and \<open>3 * 2 ^ - 1\<close>.
  \<^item> \<open>rounding_bound\<close>: a bound on what the roundings of two mirrored offsets add up to,
    in terms of the relative error \<open>2 ^ - 24\<close> of a rounding and of its absolute error
    \<open>2 ^ - 150\<close> near zero.
  An offset \<open>q\<close> is the negation of \<open>p\<close> within \<open>b\<close> when each component of \<open>p + q\<close> is
  at most the component of \<open>b\<close> in absolute value.
\<close>

definition finite_range :: "rat \<Rightarrow> int \<Rightarrow> bool" where
  "finite_range i n \<longleftrightarrow> \<bar>i\<bar> * of_int n \<le> 2 ^ 100"

definition unrounded :: "int \<Rightarrow> int \<Rightarrow> int \<Rightarrow> bool" where
  "unrounded m e n \<longleftrightarrow> 1 \<le> m \<and> m * n < 2 ^ 24 \<and> - 148 \<le> e \<and> e \<le> 100"

definition rounding_bound :: "rat \<Rightarrow> int \<Rightarrow> rat" where
  "rounding_bound i n = 14 * (\<bar>i\<bar> * of_int n / 2 ^ 24 + of_int n / 2 ^ 150)"

definition negation_within :: "rat vec3 \<Rightarrow> rat vec3 \<Rightarrow> rat vec3 \<Rightarrow> bool" where
  "negation_within b p q \<longleftrightarrow>
     (case b of (bx, by, bz) \<Rightarrow> (case p of (px, py, pz) \<Rightarrow> (case q of (qx, qy, qz) \<Rightarrow>
        \<bar>px + qx\<bar> \<le> bx \<and> \<bar>py + qy\<bar> \<le> by \<and> \<bar>pz + qz\<bar> \<le> bz)))"

section \<open>Recording the command buffers\<close>

text \<open>
  The commands that \<^verbatim>\<open>build_command_buffers_baseline\<close> records. Handles are named by
  where the code takes them from: the pipeline, the descriptor sets and the buffers of the
  model at an index of \<^verbatim>\<open>models\<close>, the descriptor set of the second pass for a swapchain
  image. The vectors of handles are sized to the number of swapchain images by the
  framework and by the functions that create them.
\<close>

datatype render_pass_ref = RenderPassNerf | RenderPassUI

datatype pipeline_ref = ModelPipelineFirstPass nat | PipelineBaseline

datatype descriptor_set_ref = ModelDescriptorSetFirstPass nat nat | DescriptorSetBaseline nat

datatype buffer_ref = ModelVertexBuffer nat | InstanceBuffer | ModelIndexBuffer nat

datatype command =
    vkBeginCommandBuffer
  | vkCmdBeginRenderPass render_pass_ref nat nat
  | vkCmdSetViewport int int
  | vkCmdSetScissor int int
  | vkCmdBindPipeline pipeline_ref
  | vkCmdBindDescriptorSets pipeline_layout descriptor_set_ref
  | vkCmdBindVertexBuffers nat buffer_ref
  | vkCmdBindIndexBuffer buffer_ref
  | vkCmdDrawIndexed "32 word" "32 word" nat nat nat
  | vkCmdNextSubpass
  | vkCmdDraw nat nat nat nat
  | vkCmdEndRenderPass
  | draw_ui
  | vkEndCommandBuffer

text \<open>
  Lines 789 to 802: the loop over the models, \<open>k\<close> being the index of the next one. The
  instance count is the product of the three dimensions, computed in \<^verbatim>\<open>int\<close> for each
  model and passed as a \<^verbatim>\<open>uint32_t\<close>; the index count is computed in \<^verbatim>\<open>uint32_t\<close>.
\<close>

fun draw_models :: "bool \<Rightarrow> nat \<Rightarrow> ivec3 \<Rightarrow> nat \<Rightarrow> model list \<Rightarrow> error + command list" where
  "draw_models deferred i d k [] = Inr []"
| "draw_models deferred i d k (m # ms) =
     and_then (lattice_size d) (\<lambda>n.
     and_then (draw_models deferred i d (k + 1) ms) (\<lambda>more.
     Inr ([vkCmdBindPipeline (ModelPipelineFirstPass k),
           vkCmdBindDescriptorSets pipeline_first_pass_layout
             (ModelDescriptorSetFirstPass k (if deferred then 0 else i)),
           vkCmdBindVertexBuffers 0 (ModelVertexBuffer k),
           vkCmdBindVertexBuffers 1 InstanceBuffer,
           vkCmdBindIndexBuffer (ModelIndexBuffer k),
           vkCmdDrawIndexed (word_of_nat (length (indices m)) * 3) (word_of_int n) 0 0 0]
          @ more)))"

text \<open>Lines 774 to 829: the commands of the buffer of swapchain image \<open>i\<close>.\<close>

definition record_commands ::
  "bool \<Rightarrow> int \<Rightarrow> int \<Rightarrow> ivec3 \<Rightarrow> model list \<Rightarrow> nat \<Rightarrow> error + command list" where
  "record_commands deferred width height d ms i =
     and_then (draw_models deferred i d 0 ms) (\<lambda>draws.
     Inr ([vkBeginCommandBuffer,
           vkCmdBeginRenderPass RenderPassNerf i (if deferred then 5 else 2),
           vkCmdSetViewport width height,
           vkCmdSetScissor width height]
          @ draws
          @ (if deferred
             then [vkCmdNextSubpass,
                   vkCmdBindPipeline PipelineBaseline,
                   vkCmdBindDescriptorSets pipeline_layout_baseline (DescriptorSetBaseline i),
                   vkCmdDraw 3 1 0 0,
                   vkCmdEndRenderPass]
             else [vkCmdEndRenderPass])
          @ [vkCmdBeginRenderPass RenderPassUI i 2, draw_ui, vkCmdEndRenderPass,
             vkEndCommandBuffer]))"

fun record_loop ::
  "bool \<Rightarrow> int \<Rightarrow> int \<Rightarrow> ivec3 \<Rightarrow> model list \<Rightarrow> nat list \<Rightarrow> error + command list list" where
  "record_loop deferred width height d ms [] = Inr []"
| "record_loop deferred width height d ms (i # rest) =
     and_then (record_commands deferred width height d ms i) (\<lambda>cmds.
     and_then (record_loop deferred width height d ms rest) (\<lambda>more. Inr (cmds # more)))"

text \<open>
  \<^verbatim>\<open>Nerf::build_command_buffers_baseline\<close>, lines 715 to 831, for \<open>n\<close> command buffers
  (\<^verbatim>\<open>draw_cmd_buffers.size()\<close>). The framebuffers that lines 719 to 727 set up again after
  a resize are not part of the model.
\<close>

definition build_command_buffers_baseline ::
  "bool \<Rightarrow> int \<Rightarrow> int \<Rightarrow> ivec3 \<Rightarrow> model list \<Rightarrow> nat \<Rightarrow> error + command list list" where
  "build_command_buffers_baseline deferred width height d ms n =
     record_loop deferred width height d ms [0..<n]"

fun is_draw_indexed :: "command \<Rightarrow> bool" where
  "is_draw_indexed (vkCmdDrawIndexed indexCount instanceCount firstIndex vertexOffset firstInstance) = True"
| "is_draw_indexed _ = False"

section \<open>Copying a buffer of the mesh\<close>

text \<open>
  \<^verbatim>\<open>vkb::core::Buffer\<close> is not part of the sources: a buffer is its memory, whose length
  is \<^verbatim>\<open>get_size()\<close>, and whether it is mapped (\<^verbatim>\<open>get_data()\<close> is not null). A value of the
  element type \<open>T\<close> is the \<open>sizeof(T)\<close> bytes of its representation, since \<^verbatim>\<open>memcpy\<close> fills
  the vector byte by byte.
\<close>

record buffer =
  contents :: "8 word list"
  mapped :: bool

datatype buffer_call = Map | Unmap

definition chunks :: "nat \<Rightarrow> 'a list \<Rightarrow> 'a list list" where
  "chunks n xs = map (\<lambda>k. take n (drop (k * n) xs)) [0..<length xs div n]"

text \<open>
  \<^verbatim>\<open>CopyBuffer<T>::operator()\<close>, lines 48 to 76. The result is the vector, the map of
  buffers after the call and the calls made on the buffer. The vector is resized to
  \<open>sz / sizeof(T)\<close> elements and \<^verbatim>\<open>memcpy\<close> writes \<open>sz\<close> bytes to it: with
  \<open>sz > (sz / sizeof(T)) * sizeof(T)\<close> the last bytes go past the end of the vector. Of an
  empty buffer no byte is copied, and the result is the empty vector.
\<close>

definition CopyBuffer ::
  "nat \<Rightarrow> (string \<rightharpoonup> buffer) \<Rightarrow> string \<Rightarrow>
   error + 8 word list list \<times> (string \<rightharpoonup> buffer) \<times> buffer_call list" where
  "CopyBuffer sizeof_T buffers buffer_name =
     (case buffers buffer_name of
        None \<Rightarrow> Inr ([], buffers, [])
      | Some b \<Rightarrow>
          (let sz = length (contents b);
               out_size = sz div sizeof_T;
               already_mapped = mapped b;
               b1 = (if \<not> already_mapped then b\<lparr>mapped := True\<rparr> else b);
               calls1 = (if \<not> already_mapped then [Map] else [])
           in if out_size * sizeof_T < sz then Inl OutOfBounds
              else
                (let out = chunks sizeof_T (contents b1);
                     b2 = (if \<not> already_mapped then b1\<lparr>mapped := False\<rparr> else b1);
                     calls2 = calls1 @ (if \<not> already_mapped then [Unmap] else [])
                 in Inr (out, buffers(buffer_name \<mapsto> b2), calls2))))"
section \<open>Properties\<close>

lemma flatten_concat: "flatten rows acc = acc @ concat rows"
  by (induction rows arbitrary: acc) auto

lemma and_then_simps [simp]:
  "and_then (Inl e) f = Inl e" "and_then (Inr v) f = f v"
  by (simp_all add: and_then_def)

lemma seg_update:
  assumes "length xs = n" "base + n < length data"
  shows "(take base data @ xs @ drop (base + n) data)[base + n := v]
         = take base data @ (xs @ [v]) @ drop (base + Suc n) data"
  using assms
  by (simp add: list_update_append Cons_nth_drop_Suc [symmetric] min_def)

lemma copy_loop_append:
  "copy_loop base src (xs @ ys) data = and_then (copy_loop base src xs data) (copy_loop base src ys)"
  by (induction xs arbitrary: data) (auto split: sum.splits)

lemma copy_loop_upt:
  assumes "n \<le> length src" "base + n \<le> length data"
  shows "copy_loop base src [0..<n] data = Inr (take base data @ take n src @ drop (base + n) data)"
  using assms
proof (induction n)
  case 0
  then show ?case by simp
next
  case (Suc n)
  then show ?case
    by (simp add: copy_loop_append load_def store_def seg_update take_Suc_conv_app_nth)
qed

lemma pad_weights_loop_append:
  "pad_weights_loop base src (xs @ ys) st = and_then (pad_weights_loop base src xs st) (pad_weights_loop base src ys)"
  by (induction xs arbitrary: st) (auto split: sum.splits prod.splits)

lemma pad_weights_loop_upt:
  assumes "n - n div 4 \<le> length src" "base + n \<le> length data"
  shows "pad_weights_loop base src [0..<n] (data, 0)
         = Inr (take base data @ pad4_seg n src @ drop (base + n) data, n - n div 4)"
  using assms
proof (induction n)
  case 0
  then show ?case by (simp add: pad4_seg_def)
next
  case (Suc n)
  have len: "length (pad4_seg n src) = n" by (simp add: pad4_seg_def)
  have seg: "pad4_seg (Suc n) src = pad4_seg n src @ [if (n + 1) mod 4 = 0 then 0 else src ! (n - n div 4)]"
    by (simp add: pad4_seg_def)
  from Suc.prems have a: "n - n div 4 \<le> length src" "base + n < length data" by arith+
  show ?case
  proof (cases "(n + 1) mod 4 = 0")
    case True
    then have "Suc n - Suc n div 4 = n - n div 4" by (simp add: div_Suc)
    with True Suc.IH [OF a(1)] a(2) len show ?thesis
      by (simp add: pad_weights_loop_append store_def seg seg_update)
  next
    case False
    then have e: "Suc n - Suc n div 4 = Suc (n - n div 4)" by (simp add: div_Suc Suc_diff_le)
    with Suc.prems have "n - n div 4 < length src" by simp
    with False Suc.IH [OF a(1)] a(2) len e show ?thesis
      by (simp add: pad_weights_loop_append store_def load_def seg seg_update)
  qed
qed

lemma pad_bias_loop_append:
  "pad_bias_loop base src (xs @ ys) data = and_then (pad_bias_loop base src xs data) (pad_bias_loop base src ys)"
  by (induction xs arbitrary: data) (auto split: sum.splits)

lemma pad_bias_loop_upt:
  assumes "\<forall>i<n. (i + 1) mod 4 \<noteq> 0 \<longrightarrow> i < length src" "base + n \<le> length data"
  shows "pad_bias_loop base src [0..<n] data
         = Inr (take base data @ bias_seg n src @ drop (base + n) data)"
  using assms
proof (induction n)
  case 0
  then show ?case by (simp add: bias_seg_def)
next
  case (Suc n)
  have len: "length (bias_seg n src) = n" by (simp add: bias_seg_def)
  have seg: "bias_seg (Suc n) src = bias_seg n src @ [if (n + 1) mod 4 = 0 then 0 else src ! n]"
    by (simp add: bias_seg_def)
  from Suc.prems(1) have a1: "\<forall>i<n. (i + 1) mod 4 \<noteq> 0 \<longrightarrow> i < length src"
    using less_Suc_eq by blast
  from Suc.prems(2) have a2: "base + n \<le> length data" and a3: "base + n < length data" by simp_all
  from Suc.prems(1) have a4: "(n + 1) mod 4 \<noteq> 0 \<longrightarrow> n < length src" by blast
  note a = a1 a2 a3 a4
  from Suc.IH [OF a(1,2)] a(3,4) len show ?case
    by (simp add: pad_bias_loop_append store_def load_def seg seg_update)
qed

lemma bias_index_arith:
  fixes i n l :: nat
  assumes "n - (if n mod 4 = 0 then 1 else 0) \<le> l" "i < n" "(i + 1) mod 4 \<noteq> 0"
  shows "i < l"
proof (cases "n mod 4 = 0")
  case True
  with assms(3) have "i \<noteq> n - 1" by (metis Suc_eq_plus1 Suc_pred' assms(2) gr_implies_not0 linorder_neqE_nat)
  with assms True show ?thesis by simp
next
  case False
  with assms show ?thesis by simp
qed


lemma copy_loop_seg:
  assumes "n \<le> length src" "n \<le> length rest"
  shows "copy_loop (length pre) src [0..<n] (pre @ rest) = Inr (pre @ take n src @ drop n rest)"
  using copy_loop_upt [of n src "length pre" "pre @ rest"] assms by simp

lemma pad_weights_loop_seg:
  assumes "n - n div 4 \<le> length src" "n \<le> length rest"
  shows "pad_weights_loop (length pre) src [0..<n] (pre @ rest, 0)
         = Inr (pre @ pad4_seg n src @ drop n rest, n - n div 4)"
  using pad_weights_loop_upt [of n src "length pre" "pre @ rest"] assms by simp

lemma pad_bias_loop_seg:
  assumes "n - (if n mod 4 = 0 then 1 else 0) \<le> length src" "n \<le> length rest"
  shows "pad_bias_loop (length pre) src [0..<n] (pre @ rest)
         = Inr (pre @ bias_seg n src @ drop n rest)"
proof -
  have "\<forall>i<n. (i + 1) mod 4 \<noteq> 0 \<longrightarrow> i < length src"
  proof (intro allI impI)
    fix i assume "i < n" "(i + 1) mod 4 \<noteq> 0"
    with assms(1) show "i < length src"
      by (rule bias_index_arith)
  qed
  with pad_bias_loop_upt [of n src "length pre" "pre @ rest"] assms(2) show ?thesis by simp
qed

lemma length_pad4_seg [simp]: "length (pad4_seg n src) = n"
  by (simp add: pad4_seg_def)

lemma length_bias_seg [simp]: "length (bias_seg n src) = n"
  by (simp add: bias_seg_def)

lemma copy_loop_step:
  assumes "base = length pre" "n \<le> length src" "n \<le> length rest"
  shows "copy_loop base src [0..<n] (pre @ rest) = Inr ((pre @ take n src) @ drop n rest)"
  using copy_loop_seg [of n src rest pre] assms by simp

lemma pad_weights_loop_step:
  assumes "base = length pre" "n - n div 4 \<le> length src" "n \<le> length rest"
  shows "pad_weights_loop base src [0..<n] (pre @ rest, 0)
         = Inr ((pre @ pad4_seg n src) @ drop n rest, n - n div 4)"
  using pad_weights_loop_seg [of n src rest pre] assms by simp

lemma pad_bias_loop_step:
  assumes "base = length pre" "n - (if n mod 4 = 0 then 1 else 0) \<le> length src" "n \<le> length rest"
  shows "pad_bias_loop base src [0..<n] (pre @ rest) = Inr ((pre @ bias_seg n src) @ drop n rest)"
  using pad_bias_loop_seg [of n src rest pre] assms by simp

lemma pack_mlp_ok:
  assumes e: "enough_elements c d" and l: "total_count c \<le> length data0"
  shows "pack_mlp c d data0 = Inr (packed c d data0)"
proof -
  define w0 w1 w2 b0 b1 b2 where cs: "w0 = WEIGHTS_0_COUNT c" "w1 = WEIGHTS_1_COUNT c"
    "w2 = WEIGHTS_2_COUNT c" "b0 = BIAS_0_COUNT c" "b1 = BIAS_1_COUNT c" "b2 = BIAS_2_COUNT c"
  define s0 s1 s2 s3 s4 s5 where ss: "s0 = take w0 (concat (weights_0 d))"
    "s1 = take w1 (concat (weights_1 d))" "s2 = pad4_seg w2 (concat (weights_2 d))"
    "s3 = take b0 (bias_0 d)" "s4 = take b1 (bias_1 d)" "s5 = bias_seg b2 (bias_2 d)"
  define r1 r2 r3 r4 r5 r6 where rs: "r1 = drop w0 data0" "r2 = drop w1 r1" "r3 = drop w2 r2"
    "r4 = drop b0 r3" "r5 = drop b1 r4" "r6 = drop b2 r5"
  from e have en: "w0 \<le> length (concat (weights_0 d))" "w1 \<le> length (concat (weights_1 d))"
    "w2 - w2 div 4 \<le> length (concat (weights_2 d))" "b0 \<le> length (bias_0 d)"
    "b1 \<le> length (bias_1 d)" "b2 - (if b2 mod 4 = 0 then 1 else 0) \<le> length (bias_2 d)"
    unfolding enough_elements_def cs flatten_concat by simp_all
  from l have tl: "w0 + w1 + w2 + b0 + b1 + b2 \<le> length data0"
    by (simp add: total_count_def cs)
  have ls: "length s0 = w0" "length s1 = w1" "length s2 = w2" "length s3 = b0" "length s4 = b1"
    using en by (simp_all add: ss)
  have lr: "w0 \<le> length data0" "w1 \<le> length r1" "w2 \<le> length r2" "b0 \<le> length r3"
    "b1 \<le> length r4" "b2 \<le> length r5"
    using tl by (simp_all add: rs)
  have 1: "copy_loop 0 (concat (weights_0 d)) [0..<w0] data0 = Inr (s0 @ r1)"
    using copy_loop_step [of 0 "[]" w0 "concat (weights_0 d)" data0] en(1) lr(1)
    by (simp add: ss rs)
  have 2: "copy_loop w0 (concat (weights_1 d)) [0..<w1] (s0 @ r1) = Inr ((s0 @ s1) @ r2)"
    unfolding ss(2) rs(2) by (rule copy_loop_step) (simp_all add: ls en lr)
  have 3: "pad_weights_loop (w0 + w1) (concat (weights_2 d)) [0..<w2] ((s0 @ s1) @ r2, 0)
           = Inr (((s0 @ s1) @ s2) @ r3, w2 - w2 div 4)"
    unfolding ss(3) rs(3) by (rule pad_weights_loop_step) (simp_all add: ls en lr)
  have 4: "copy_loop (w0 + w1 + w2) (bias_0 d) [0..<b0] (((s0 @ s1) @ s2) @ r3)
           = Inr ((((s0 @ s1) @ s2) @ s3) @ r4)"
    unfolding ss(4) rs(4) by (rule copy_loop_step) (simp_all add: ls en lr)
  have 5: "copy_loop (w0 + w1 + w2 + b0) (bias_1 d) [0..<b1] ((((s0 @ s1) @ s2) @ s3) @ r4)
           = Inr (((((s0 @ s1) @ s2) @ s3) @ s4) @ r5)"
    unfolding ss(5) rs(5) by (rule copy_loop_step) (simp_all add: ls en lr)
  have 6: "pad_bias_loop (w0 + w1 + w2 + b0 + b1) (bias_2 d) [0..<b2] (((((s0 @ s1) @ s2) @ s3) @ s4) @ r5)
           = Inr ((((((s0 @ s1) @ s2) @ s3) @ s4) @ s5) @ r6)"
    unfolding ss(6) rs(6) by (rule pad_bias_loop_step) (simp_all add: ls en lr)
  have "pack_mlp c d data0 = Inr ((((((s0 @ s1) @ s2) @ s3) @ s4) @ s5) @ r6)"
    unfolding pack_mlp_def Let_def flatten_concat cs [symmetric] append_Nil
    by (simp only: 1 2 3 4 5 6 and_then_simps prod.case)
  moreover have "r6 = drop (total_count c) data0"
    by (simp add: rs total_count_def cs ac_simps)
  ultimately show ?thesis
    by (simp add: packed_def ss cs)
qed

lemma resize_models_grow:
  "0 \<le> n \<Longrightarrow> resize_models ms n = Inr (ms @ replicate (nat n) new_model)"
  by (auto simp: resize_models_def Let_def nat_add_distrib)

lemma assign_loop_ok:
  "\<forall>i\<in>set is. i < length ms \<Longrightarrow> \<exists>ms'. assign_loop f is ms = Inr ms' \<and> length ms' = length ms"
proof (induction "is" arbitrary: ms)
  case Nil
  then show ?case by simp
next
  case (Cons i "is")
  from Cons.prems have "\<forall>j\<in>set is. j < length (ms[i := f (ms ! i)])" by simp
  from Cons.IH [OF this] Cons.prems show ?case
    by (simp add: load_def store_def)
qed

lemma initialize_ok:
  assumes e: "enough_elements c d"
    and m: "mi < length (mlp_weight_vector st)"
    and l: "total_count c \<le> length (mlp_weight_vector st ! mi)"
    and n: "0 \<le> obj_num d"
  shows "\<exists>ms. initialize_mlp_uniform_buffers c mi d st =
           Inr (st\<lparr>models := ms,
                   mlp_weight_vector := (mlp_weight_vector st)[mi := packed c d (mlp_weight_vector st ! mi)],
                   log := log st @ mlp_count_checks c d\<rparr>) \<and>
           length ms = length (models st) + nat (obj_num d)"
proof -
  let ?ms1 = "models st @ replicate (nat (obj_num d)) new_model"
  have r: "resize_models (models st) (obj_num d) = Inr ?ms1"
    using n by (rule resize_models_grow)
  obtain ms2 where a1: "assign_loop (\<lambda>m. m\<lparr>model_index := int mi\<rparr>) [length (models st)..<length ?ms1] ?ms1 = Inr ms2"
    and l2: "length ms2 = length ?ms1"
    using assign_loop_ok [of "[length (models st)..<length ?ms1]" ?ms1] by auto
  have "\<forall>i\<in>set (map (\<lambda>i. length (models st) + i) [0..<nat (obj_num d)]). i < length ms2"
    using l2 by auto
  from assign_loop_ok [OF this]
  obtain ms3 where a2: "assign_loop (\<lambda>m. m\<lparr>sub_model_num := obj_num d\<rparr>)
      (map (\<lambda>i. length (models st) + i) [0..<nat (obj_num d)]) ms2 = Inr ms3"
    and l3: "length ms3 = length ms2" by blast
  have ld: "load (mlp_weight_vector st) mi = Inr (mlp_weight_vector st ! mi)"
    using m by (simp add: load_def)
  have "initialize_mlp_uniform_buffers c mi d st =
           Inr (st\<lparr>models := ms3,
                   mlp_weight_vector := (mlp_weight_vector st)[mi := packed c d (mlp_weight_vector st ! mi)],
                   log := log st @ mlp_count_checks c d\<rparr>)"
    unfolding initialize_mlp_uniform_buffers_def Let_def
    by (simp only: r a1 a2 ld pack_mlp_ok [OF e l] and_then_simps)
  with l2 l3 show ?thesis by auto
qed

lemma segment_at:
  "length pre = off \<Longrightarrow> length s = n \<Longrightarrow> segment off n (pre @ s @ post) = s"
  by (simp add: segment_def)

lemma pad4_seg_nth:
  "i < n \<Longrightarrow> pad4_seg n src ! i = (if (i + 1) mod 4 = 0 then 0 else src ! (i - i div 4))"
  by (simp add: pad4_seg_def)

lemma upt_4_shift: "[0..<4 + n] = 0 # 1 # 2 # 3 # map (\<lambda>i. i + 4) [0..<n]"
proof -
  have "[0..<4 + n] = [0..<4] @ [4..<4 + n]"
    by (metis upt_add_eq_append zero_le)
  moreover have "[4..<4 + n] = map (\<lambda>i. i + 4) [0..<n]"
    by (simp add: map_add_upt add.commute)
  moreover have "[0..<4] = [0, 1, 2, 3::nat]" by (simp add: upt_rec)
  ultimately show ?thesis by simp
qed

lemma pad4_seg_group:
  "pad4_seg (4 + n) (a # b # c # rest) = a # b # c # 0 # pad4_seg n rest"
proof -
  have 1: "\<And>i. i + 4 - (i + 4) div 4 = Suc (Suc (Suc (i - i div 4)))"
    by (simp add: Suc_diff_le)
  have 2: "\<And>i::nat. (i + 4 + 1) mod 4 = (i + 1) mod 4"
    by presburger
  have "map (\<lambda>i. if (i + 4 + 1) mod 4 = 0 then 0 else (a # b # c # rest) ! (i + 4 - (i + 4) div 4)) [0..<n]
        = map (\<lambda>i. if (i + 1) mod 4 = 0 then 0 else rest ! (i - i div 4)) [0..<n]"
    by (simp only: 1 2 nth_Cons_Suc)
  then show ?thesis
    unfolding pad4_seg_def upt_4_shift by (simp add: comp_def)
qed

lemma pad4_seg_short: "n < 4 \<Longrightarrow> length src = n \<Longrightarrow> pad4_seg n src = src"
proof -
  assume a: "n < 4" "length src = n"
  have "pad4_seg n src = map (\<lambda>i. src ! i) [0..<n]"
    unfolding pad4_seg_def using a(1) by (intro map_cong) auto
  with a(2) show ?thesis by (metis map_nth)
qed

lemma drop_every_4th_short: "length xs < 4 \<Longrightarrow> drop_every_4th xs = xs"
  by (cases xs rule: drop_every_4th.cases) auto

lemma pad_every_4th_short: "length xs < 3 \<Longrightarrow> pad_every_4th xs = xs"
  by (cases xs rule: pad_every_4th.cases) auto

lemma split3:
  assumes "3 \<le> length src"
  shows "\<exists>a b c rest. src = a # b # c # rest"
proof -
  from assms obtain a r1 where 1: "src = a # r1" by (cases src) auto
  with assms obtain b r2 where 2: "r1 = b # r2" by (cases r1) auto
  with 1 assms obtain c r3 where 3: "r2 = c # r3" by (cases r2) auto
  from 1 2 3 show ?thesis by blast
qed

lemma drop_pad4_seg:
  "length src = n - n div 4 \<Longrightarrow> drop_every_4th (pad4_seg n src) = src"
proof (induction n arbitrary: src rule: less_induct)
  case (less n)
  show ?case
  proof (cases "n < 4")
    case True
    with less.prems show ?thesis
      by (simp add: pad4_seg_short drop_every_4th_short)
  next
    case False
    then obtain m where n: "n = 4 + m" by (metis le_add_diff_inverse not_less)
    with less.prems have l: "length src = 3 + (m - m div 4)" by (simp add: Suc_diff_le)
    then have "3 \<le> length src" by simp
    from split3 [OF this] obtain a b c rest where src: "src = a # b # c # rest"
      by blast
    with l have "length rest = m - m div 4" by simp
    with less.IH [of m rest] n have "drop_every_4th (pad4_seg m rest) = rest" by simp
    then show ?thesis by (simp add: n src pad4_seg_group)
  qed
qed

lemma pad4_seg_eq_pad_every_4th:
  "length src = 3 * k \<Longrightarrow> pad4_seg (4 * k) src = pad_every_4th src"
proof (induction k arbitrary: src)
  case 0
  then show ?case by (simp add: pad4_seg_def)
next
  case (Suc k)
  then have "3 \<le> length src" by simp
  from split3 [OF this] obtain a b c rest where src: "src = a # b # c # rest"
    by blast
  with Suc.prems have "length rest = 3 * k" by simp
  from Suc.IH [OF this] show ?case
    using pad4_seg_group [of "4 * k" a b c rest] by (simp add: src)
qed

lemma bias_seg_one_group: "n \<le> 4 \<Longrightarrow> bias_seg n src = pad4_seg n src"
  unfolding bias_seg_def pad4_seg_def by (intro map_cong) auto

lemma packed_segments:
  assumes e: "enough_elements c d"
  shows "weights_0_segment c (packed c d data0) = take (WEIGHTS_0_COUNT c) (concat (weights_0 d))"
    and "weights_1_segment c (packed c d data0) = take (WEIGHTS_1_COUNT c) (concat (weights_1 d))"
    and "weights_2_segment c (packed c d data0) = pad4_seg (WEIGHTS_2_COUNT c) (concat (weights_2 d))"
    and "bias_0_segment c (packed c d data0) = take (BIAS_0_COUNT c) (bias_0 d)"
    and "bias_1_segment c (packed c d data0) = take (BIAS_1_COUNT c) (bias_1 d)"
    and "bias_2_segment c (packed c d data0) = bias_seg (BIAS_2_COUNT c) (bias_2 d)"
proof -
  define s0 s1 s2 s3 s4 s5 r where ss: "s0 = take (WEIGHTS_0_COUNT c) (concat (weights_0 d))"
    "s1 = take (WEIGHTS_1_COUNT c) (concat (weights_1 d))"
    "s2 = pad4_seg (WEIGHTS_2_COUNT c) (concat (weights_2 d))"
    "s3 = take (BIAS_0_COUNT c) (bias_0 d)" "s4 = take (BIAS_1_COUNT c) (bias_1 d)"
    "s5 = bias_seg (BIAS_2_COUNT c) (bias_2 d)" "r = drop (total_count c) data0"
  have p: "packed c d data0 = s0 @ s1 @ s2 @ s3 @ s4 @ s5 @ r"
    by (simp add: packed_def ss)
  from e have ls: "length s0 = WEIGHTS_0_COUNT c" "length s1 = WEIGHTS_1_COUNT c"
    "length s2 = WEIGHTS_2_COUNT c" "length s3 = BIAS_0_COUNT c" "length s4 = BIAS_1_COUNT c"
    "length s5 = BIAS_2_COUNT c"
    by (simp_all add: ss enough_elements_def flatten_concat)
  show "weights_0_segment c (packed c d data0) = take (WEIGHTS_0_COUNT c) (concat (weights_0 d))"
    unfolding weights_0_segment_def p ss(1) [symmetric]
    using segment_at [of "[]" 0 s0 _ "s1 @ s2 @ s3 @ s4 @ s5 @ r"] ls by simp
  show "weights_1_segment c (packed c d data0) = take (WEIGHTS_1_COUNT c) (concat (weights_1 d))"
    unfolding weights_1_segment_def p ss(2) [symmetric]
    using segment_at [of s0 _ s1 _ "s2 @ s3 @ s4 @ s5 @ r"] ls by simp
  show "weights_2_segment c (packed c d data0) = pad4_seg (WEIGHTS_2_COUNT c) (concat (weights_2 d))"
    unfolding weights_2_segment_def p ss(3) [symmetric]
    using segment_at [of "s0 @ s1" _ s2 _ "s3 @ s4 @ s5 @ r"] ls by simp
  show "bias_0_segment c (packed c d data0) = take (BIAS_0_COUNT c) (bias_0 d)"
    unfolding bias_0_segment_def p ss(4) [symmetric]
    using segment_at [of "s0 @ s1 @ s2" _ s3 _ "s4 @ s5 @ r"] ls by simp
  show "bias_1_segment c (packed c d data0) = take (BIAS_1_COUNT c) (bias_1 d)"
    unfolding bias_1_segment_def p ss(5) [symmetric]
    using segment_at [of "s0 @ s1 @ s2 @ s3" _ s4 _ "s5 @ r"] ls by simp
  show "bias_2_segment c (packed c d data0) = bias_seg (BIAS_2_COUNT c) (bias_2 d)"
    unfolding bias_2_segment_def p ss(6) [symmetric]
    using segment_at [of "s0 @ s1 @ s2 @ s3 @ s4" _ s5 _ r] ls by simp
qed

lemma initialize_buffer:
  assumes e: "enough_elements c d"
    and m: "mi < length (mlp_weight_vector st)"
    and l: "total_count c \<le> length (mlp_weight_vector st ! mi)"
    and n: "0 \<le> obj_num d"
  shows "\<exists>st'. initialize_mlp_uniform_buffers c mi d st = Inr st' \<and>
           mlp_weight_vector st' ! mi = packed c d (mlp_weight_vector st ! mi) \<and>
           length (mlp_weight_vector st') = length (mlp_weight_vector st) \<and>
           length (models st') = length (models st) + nat (obj_num d) \<and>
           log st' = log st @ mlp_count_checks c d"
  using initialize_ok [OF e m l n] m by auto

lemma pad4_seg_design:
  assumes "4 dvd n" "length src = n - n div 4"
  shows "pad4_seg n src = pad_every_4th src" "n = length src + (length src + 2) div 3"
proof -
  from assms(1) obtain k where n: "n = 4 * k" by (auto simp: dvd_def)
  with assms(2) have l: "length src = 3 * k" by simp
  from pad4_seg_eq_pad_every_4th [OF l] n show "pad4_seg n src = pad_every_4th src" by simp
  from n l show "n = length src + (length src + 2) div 3" by simp
qed

lemma padded_pad4_seg: "padded_as_specified n src (pad4_seg n src)"
proof -
  have "4 dvd n \<and> length src = n - n div 4 \<longrightarrow>
        pad4_seg n src = pad_every_4th src \<and> length (pad4_seg n src) = length src + (length src + 2) div 3"
  proof (intro impI, elim conjE)
    assume a: "4 dvd n" "length src = n - n div 4"
    have "length (pad4_seg n src) = n" by simp
    with pad4_seg_design [OF a]
    show "pad4_seg n src = pad_every_4th src \<and> length (pad4_seg n src) = length src + (length src + 2) div 3"
      by (simp only:)
  qed
  moreover have "length (pad4_seg n src) = n" by simp
  moreover have "\<forall>i<n. pad4_seg n src ! i = (if (i + 1) mod 4 = 0 then 0 else src ! (i - i div 4))"
    by (simp add: pad4_seg_nth)
  ultimately show ?thesis
    unfolding padded_as_specified_def by blast
qed

text \<open>
  Claim C1, as the code has it. Whenever the description supplies the elements that the
  loops read, \<^verbatim>\<open>initialize_mlp_uniform_buffers\<close> returns, and the segment it has written for
  the weights of layer 2 has the fixed length \<open>WEIGHTS_2_COUNT\<close>, holds zero at every
  fourth position and the source elements, in their order, at the other positions; when
  \<open>WEIGHTS_2_COUNT\<close> is a multiple of four and the source has the three elements of each
  group of four, of length \<open>L\<close>, the segment is the source with a zero after every three
  elements and has length \<open>L + ceil (L / 3)\<close>. The same holds for the bias segment of
  layer 2 when \<open>BIAS_2_COUNT\<close> is at most 4 (one group).
\<close>

theorem layer_2_padding:
  assumes "enough_elements c d"
    and "mi < length (mlp_weight_vector st)"
    and "total_count c \<le> length (mlp_weight_vector st ! mi)"
    and "0 \<le> obj_num d"
  shows "\<exists>st'. initialize_mlp_uniform_buffers c mi d st = Inr st' \<and>
    padded_as_specified (WEIGHTS_2_COUNT c) (concat (weights_2 d))
      (weights_2_segment c (mlp_weight_vector st' ! mi)) \<and>
    (BIAS_2_COUNT c \<le> 4 \<longrightarrow>
       padded_as_specified (BIAS_2_COUNT c) (bias_2 d)
         (bias_2_segment c (mlp_weight_vector st' ! mi)))"
proof -
  from initialize_buffer [OF assms] obtain st' where
    i: "initialize_mlp_uniform_buffers c mi d st = Inr st'" and
    b: "mlp_weight_vector st' ! mi = packed c d (mlp_weight_vector st ! mi)" by blast
  have w: "weights_2_segment c (mlp_weight_vector st' ! mi)
           = pad4_seg (WEIGHTS_2_COUNT c) (concat (weights_2 d))"
    unfolding b by (rule packed_segments(3) [OF assms(1)])
  have bs: "bias_2_segment c (mlp_weight_vector st' ! mi) = bias_seg (BIAS_2_COUNT c) (bias_2 d)"
    unfolding b by (rule packed_segments(6) [OF assms(1)])
  have 1: "padded_as_specified (WEIGHTS_2_COUNT c) (concat (weights_2 d))
      (weights_2_segment c (mlp_weight_vector st' ! mi))"
    unfolding w by (rule padded_pad4_seg)
  have 2: "BIAS_2_COUNT c \<le> 4 \<longrightarrow>
       padded_as_specified (BIAS_2_COUNT c) (bias_2 d)
         (bias_2_segment c (mlp_weight_vector st' ! mi))"
    unfolding bs using padded_pad4_seg [of "BIAS_2_COUNT c" "bias_2 d"]
    by (simp add: bias_seg_one_group)
  from i 1 2 show ?thesis by blast
qed

lemma sample_enough: "enough_elements sample_counts sample_mlp"
  by (simp add: enough_elements_def sample_counts_def sample_mlp_def)

lemma sample_ready:
  "0 < length (mlp_weight_vector sample_state)"
  "total_count sample_counts \<le> length (mlp_weight_vector sample_state ! 0)"
  "0 \<le> obj_num sample_mlp"
  by (simp_all add: sample_state_def sample_counts_def total_count_def sample_mlp_def)

text \<open>
  The example of the claim: with a layer-2 segment of 8 elements the source
  \<open>[1, 2, 3, 4, 5, 6]\<close> is packed to \<open>[1, 2, 3, 0, 4, 5, 6, 0]\<close>, and the bias
  \<open>[51, 52, 53]\<close> to \<open>[51, 52, 53, 0]\<close>.
\<close>

theorem layer_2_padding_witness:
  "\<exists>st'. initialize_mlp_uniform_buffers sample_counts 0 sample_mlp sample_state = Inr st' \<and>
     concat (weights_2 sample_mlp) = [1, 2, 3, 4, 5, 6] \<and>
     weights_2_segment sample_counts (mlp_weight_vector st' ! 0) = [1, 2, 3, 0, 4, 5, 6, 0] \<and>
     bias_2 sample_mlp = [51, 52, 53] \<and>
     bias_2_segment sample_counts (mlp_weight_vector st' ! 0) = [51, 52, 53, 0]"
proof -
  from layer_2_padding [OF sample_enough sample_ready] obtain st' where
    i: "initialize_mlp_uniform_buffers sample_counts 0 sample_mlp sample_state = Inr st'" and
    w: "padded_as_specified (WEIGHTS_2_COUNT sample_counts) (concat (weights_2 sample_mlp))
          (weights_2_segment sample_counts (mlp_weight_vector st' ! 0))" and
    b: "BIAS_2_COUNT sample_counts \<le> 4 \<longrightarrow>
          padded_as_specified (BIAS_2_COUNT sample_counts) (bias_2 sample_mlp)
            (bias_2_segment sample_counts (mlp_weight_vector st' ! 0))"
    by blast
  from w have "weights_2_segment sample_counts (mlp_weight_vector st' ! 0) = [1, 2, 3, 0, 4, 5, 6, 0]"
    by (simp add: padded_as_specified_def sample_counts_def sample_mlp_def)
  moreover from b have "bias_2_segment sample_counts (mlp_weight_vector st' ! 0) = [51, 52, 53, 0]"
    by (simp add: padded_as_specified_def sample_counts_def sample_mlp_def)
  ultimately show ?thesis
    using i by (simp add: sample_mlp_def)
qed

text \<open>
  Claim C1 as stated fails for a source whose length is not the one the segment is made
  for: a source of 9 elements is packed into the same 8 elements, not into
  \<open>9 + ceil (9 / 3) = 12\<close>; its last three elements are not read.
\<close>

theorem layer_2_padding_counterexample:
  "\<exists>st'. initialize_mlp_uniform_buffers sample_counts 0
            (sample_mlp\<lparr>weights_2 := [[1, 2, 3], [4, 5, 6], [7, 8, 9]]\<rparr>) sample_state = Inr st' \<and>
     length (concat [[1, 2, 3], [4, 5, 6], [7, 8, 9::rat]]) = 9 \<and>
     weights_2_segment sample_counts (mlp_weight_vector st' ! 0) = [1, 2, 3, 0, 4, 5, 6, 0] \<and>
     length (weights_2_segment sample_counts (mlp_weight_vector st' ! 0)) \<noteq> 9 + (9 + 2) div 3"
proof -
  let ?d = "sample_mlp\<lparr>weights_2 := [[1, 2, 3], [4, 5, 6], [7, 8, 9]]\<rparr>"
  have e: "enough_elements sample_counts ?d"
    by (simp add: enough_elements_def sample_counts_def sample_mlp_def)
  have n: "0 \<le> obj_num ?d" by (simp add: sample_mlp_def)
  from initialize_buffer [OF e sample_ready(1,2) n] obtain st' where
    i: "initialize_mlp_uniform_buffers sample_counts 0 ?d sample_state = Inr st'" and
    b: "mlp_weight_vector st' ! 0 = packed sample_counts ?d (mlp_weight_vector sample_state ! 0)"
    by blast
  have "weights_2_segment sample_counts (mlp_weight_vector st' ! 0) = [1, 2, 3, 0, 4, 5, 6, 0]"
    unfolding b packed_segments(3) [OF e]
    by (simp add: pad4_seg_def sample_counts_def upt_rec)
  with i show ?thesis by simp
qed

text \<open>
  Claim C5, as the code has it. When the source of the layer-2 weights has one element
  for each position of the segment that is not a padding position, dropping every fourth
  element of the packed segment gives the source back; likewise for the bias of layer 2
  when \<open>BIAS_2_COUNT\<close> is at most 4.
\<close>

theorem layer_2_round_trip:
  assumes "enough_elements c d"
    and "mi < length (mlp_weight_vector st)"
    and "total_count c \<le> length (mlp_weight_vector st ! mi)"
    and "0 \<le> obj_num d"
    and "length (concat (weights_2 d)) = WEIGHTS_2_COUNT c - WEIGHTS_2_COUNT c div 4"
  shows "\<exists>st'. initialize_mlp_uniform_buffers c mi d st = Inr st' \<and>
    drop_every_4th (weights_2_segment c (mlp_weight_vector st' ! mi)) = concat (weights_2 d) \<and>
    (BIAS_2_COUNT c \<le> 4 \<and> length (bias_2 d) = BIAS_2_COUNT c - BIAS_2_COUNT c div 4 \<longrightarrow>
       drop_every_4th (bias_2_segment c (mlp_weight_vector st' ! mi)) = bias_2 d)"
proof -
  from initialize_buffer [OF assms(1-4)] obtain st' where
    i: "initialize_mlp_uniform_buffers c mi d st = Inr st'" and
    b: "mlp_weight_vector st' ! mi = packed c d (mlp_weight_vector st ! mi)" by blast
  have 1: "drop_every_4th (weights_2_segment c (mlp_weight_vector st' ! mi)) = concat (weights_2 d)"
    unfolding b packed_segments(3) [OF assms(1)] using assms(5) by (rule drop_pad4_seg)
  have 2: "BIAS_2_COUNT c \<le> 4 \<and> length (bias_2 d) = BIAS_2_COUNT c - BIAS_2_COUNT c div 4 \<longrightarrow>
       drop_every_4th (bias_2_segment c (mlp_weight_vector st' ! mi)) = bias_2 d"
    unfolding b packed_segments(6) [OF assms(1)]
    by (simp add: bias_seg_one_group drop_pad4_seg)
  from i 1 2 show ?thesis by blast
qed

text \<open>
  The round trip on the sample description.
\<close>

theorem layer_2_round_trip_witness:
  "\<exists>st'. initialize_mlp_uniform_buffers sample_counts 0 sample_mlp sample_state = Inr st' \<and>
     drop_every_4th (weights_2_segment sample_counts (mlp_weight_vector st' ! 0)) = [1, 2, 3, 4, 5, 6] \<and>
     drop_every_4th (bias_2_segment sample_counts (mlp_weight_vector st' ! 0)) = [51, 52, 53]"
proof -
  have "length (concat (weights_2 sample_mlp)) =
        WEIGHTS_2_COUNT sample_counts - WEIGHTS_2_COUNT sample_counts div 4"
    by (simp add: sample_counts_def sample_mlp_def)
  from layer_2_round_trip [OF sample_enough sample_ready this] show ?thesis
    by (simp add: sample_counts_def sample_mlp_def)
qed

text \<open>
  Claim C5 as stated fails for a source with a surplus element: of the 7 elements
  \<open>[1, 2, 3, 4, 5, 6, 7]\<close> the segment holds 6, and unpacking gives \<open>[1, 2, 3, 4, 5, 6]\<close>.
\<close>

theorem layer_2_round_trip_counterexample:
  "\<exists>st'. initialize_mlp_uniform_buffers sample_counts 0
            (sample_mlp\<lparr>weights_2 := [[1, 2, 3], [4, 5, 6], [7]]\<rparr>) sample_state = Inr st' \<and>
     concat [[1, 2, 3], [4, 5, 6], [7::rat]] = [1, 2, 3, 4, 5, 6, 7] \<and>
     weights_2_segment sample_counts (mlp_weight_vector st' ! 0) = [1, 2, 3, 0, 4, 5, 6, 0] \<and>
     drop_every_4th (weights_2_segment sample_counts (mlp_weight_vector st' ! 0)) = [1, 2, 3, 4, 5, 6]"
proof -
  let ?d = "sample_mlp\<lparr>weights_2 := [[1, 2, 3], [4, 5, 6], [7]]\<rparr>"
  have e: "enough_elements sample_counts ?d"
    by (simp add: enough_elements_def sample_counts_def sample_mlp_def)
  have n: "0 \<le> obj_num ?d" by (simp add: sample_mlp_def)
  from initialize_buffer [OF e sample_ready(1,2) n] obtain st' where
    i: "initialize_mlp_uniform_buffers sample_counts 0 ?d sample_state = Inr st'" and
    b: "mlp_weight_vector st' ! 0 = packed sample_counts ?d (mlp_weight_vector sample_state ! 0)"
    by blast
  have "weights_2_segment sample_counts (mlp_weight_vector st' ! 0) = [1, 2, 3, 0, 4, 5, 6, 0]"
    unfolding b packed_segments(3) [OF e]
    by (simp add: pad4_seg_def sample_counts_def upt_rec)
  with i show ?thesis by simp
qed

text \<open>
  Claim C6, as the code has it. Whenever the description supplies the elements that the
  loops read, the segments of layers 0 and 1 hold the first \<open>COUNT\<close> elements of the
  row-major flattened weight matrix, and of the bias vector, in their order and with
  nothing inserted; they hold the whole array, element count unchanged, when the array
  has exactly \<open>COUNT\<close> elements.
\<close>

theorem layers_0_1_verbatim:
  assumes "enough_elements c d"
    and "mi < length (mlp_weight_vector st)"
    and "total_count c \<le> length (mlp_weight_vector st ! mi)"
    and "0 \<le> obj_num d"
  shows "\<exists>st'. initialize_mlp_uniform_buffers c mi d st = Inr st' \<and>
    (let data = mlp_weight_vector st' ! mi in
     weights_0_segment c data = take (WEIGHTS_0_COUNT c) (concat (weights_0 d)) \<and>
     weights_1_segment c data = take (WEIGHTS_1_COUNT c) (concat (weights_1 d)) \<and>
     bias_0_segment c data = take (BIAS_0_COUNT c) (bias_0 d) \<and>
     bias_1_segment c data = take (BIAS_1_COUNT c) (bias_1 d) \<and>
     (length (concat (weights_0 d)) = WEIGHTS_0_COUNT c \<longrightarrow>
        weights_0_segment c data = concat (weights_0 d)) \<and>
     (length (concat (weights_1 d)) = WEIGHTS_1_COUNT c \<longrightarrow>
        weights_1_segment c data = concat (weights_1 d)) \<and>
     (length (bias_0 d) = BIAS_0_COUNT c \<longrightarrow> bias_0_segment c data = bias_0 d) \<and>
     (length (bias_1 d) = BIAS_1_COUNT c \<longrightarrow> bias_1_segment c data = bias_1 d))"
proof -
  from initialize_buffer [OF assms] obtain st' where
    i: "initialize_mlp_uniform_buffers c mi d st = Inr st'" and
    b: "mlp_weight_vector st' ! mi = packed c d (mlp_weight_vector st ! mi)" by blast
  have "let data = mlp_weight_vector st' ! mi in
     weights_0_segment c data = take (WEIGHTS_0_COUNT c) (concat (weights_0 d)) \<and>
     weights_1_segment c data = take (WEIGHTS_1_COUNT c) (concat (weights_1 d)) \<and>
     bias_0_segment c data = take (BIAS_0_COUNT c) (bias_0 d) \<and>
     bias_1_segment c data = take (BIAS_1_COUNT c) (bias_1 d) \<and>
     (length (concat (weights_0 d)) = WEIGHTS_0_COUNT c \<longrightarrow>
        weights_0_segment c data = concat (weights_0 d)) \<and>
     (length (concat (weights_1 d)) = WEIGHTS_1_COUNT c \<longrightarrow>
        weights_1_segment c data = concat (weights_1 d)) \<and>
     (length (bias_0 d) = BIAS_0_COUNT c \<longrightarrow> bias_0_segment c data = bias_0 d) \<and>
     (length (bias_1 d) = BIAS_1_COUNT c \<longrightarrow> bias_1_segment c data = bias_1 d)"
    unfolding Let_def b packed_segments [OF assms(1)] by simp
  with i show ?thesis by blast
qed

text \<open>
  The four segments of the sample description.
\<close>

theorem layers_0_1_verbatim_witness:
  "\<exists>st'. initialize_mlp_uniform_buffers sample_counts 0 sample_mlp sample_state = Inr st' \<and>
     weights_0_segment sample_counts (mlp_weight_vector st' ! 0) = [11, 12, 13, 14] \<and>
     weights_1_segment sample_counts (mlp_weight_vector st' ! 0) = [21, 22, 23, 24] \<and>
     bias_0_segment sample_counts (mlp_weight_vector st' ! 0) = [31, 32] \<and>
     bias_1_segment sample_counts (mlp_weight_vector st' ! 0) = [41, 42]"
proof -
  from layers_0_1_verbatim [OF sample_enough sample_ready] obtain st' where
    i: "initialize_mlp_uniform_buffers sample_counts 0 sample_mlp sample_state = Inr st'" and
    s: "weights_0_segment sample_counts (mlp_weight_vector st' ! 0)
          = take (WEIGHTS_0_COUNT sample_counts) (concat (weights_0 sample_mlp))"
       "weights_1_segment sample_counts (mlp_weight_vector st' ! 0)
          = take (WEIGHTS_1_COUNT sample_counts) (concat (weights_1 sample_mlp))"
       "bias_0_segment sample_counts (mlp_weight_vector st' ! 0)
          = take (BIAS_0_COUNT sample_counts) (bias_0 sample_mlp)"
       "bias_1_segment sample_counts (mlp_weight_vector st' ! 0)
          = take (BIAS_1_COUNT sample_counts) (bias_1 sample_mlp)"
    unfolding Let_def by blast
  from s have "weights_0_segment sample_counts (mlp_weight_vector st' ! 0) = [11, 12, 13, 14]"
    "weights_1_segment sample_counts (mlp_weight_vector st' ! 0) = [21, 22, 23, 24]"
    "bias_0_segment sample_counts (mlp_weight_vector st' ! 0) = [31, 32]"
    "bias_1_segment sample_counts (mlp_weight_vector st' ! 0) = [41, 42]"
    by (simp_all add: sample_counts_def sample_mlp_def)
  with i show ?thesis by blast
qed

text \<open>
  Claim C6 as stated fails for a description with more elements than the constant: of
  the 5 weights of layer 0 the segment holds the first 4, and the next segment starts
  right after them.
\<close>

theorem layers_0_1_verbatim_counterexample:
  "\<exists>st'. initialize_mlp_uniform_buffers sample_counts_64 0 surplus_mlp sample_state_64 = Inr st' \<and>
     concat (weights_0 surplus_mlp) = [11, 12, 13, 14, 15] \<and>
     weights_0_segment sample_counts_64 (mlp_weight_vector st' ! 0) = [11, 12, 13, 14] \<and>
     weights_1_segment sample_counts_64 (mlp_weight_vector st' ! 0) = [21, 22, 23, 24]"
proof -
  have e: "enough_elements sample_counts_64 surplus_mlp"
    by (simp add: enough_elements_def sample_counts_64_def surplus_mlp_def)
  have r: "0 < length (mlp_weight_vector sample_state_64)"
    "total_count sample_counts_64 \<le> length (mlp_weight_vector sample_state_64 ! 0)"
    "0 \<le> obj_num surplus_mlp"
    by (simp_all add: sample_state_64_def sample_counts_64_def total_count_def surplus_mlp_def)
  from initialize_buffer [OF e r] obtain st' where
    i: "initialize_mlp_uniform_buffers sample_counts_64 0 surplus_mlp sample_state_64 = Inr st'" and
    b: "mlp_weight_vector st' ! 0 = packed sample_counts_64 surplus_mlp (mlp_weight_vector sample_state_64 ! 0)"
    by blast
  have "weights_0_segment sample_counts_64 (mlp_weight_vector st' ! 0) = [11, 12, 13, 14]"
    "weights_1_segment sample_counts_64 (mlp_weight_vector st' ! 0) = [21, 22, 23, 24]"
    unfolding b packed_segments [OF e]
    by (simp_all add: sample_counts_64_def surplus_mlp_def)
  with i show ?thesis by (simp add: surplus_mlp_def)
qed

subsection \<open>The loops past the end of an array\<close>

text \<open>
  The loops with unchecked reads write every position of their segment, whatever the
  lengths of the arrays of the description.
\<close>

lemma copy_loop_unchecked_append:
  "copy_loop_unchecked behind base src (xs @ ys) data
   = and_then (copy_loop_unchecked behind base src xs data) (copy_loop_unchecked behind base src ys)"
  by (induction xs arbitrary: data) (auto split: sum.splits)

lemma copy_loop_unchecked_upt:
  assumes "base + n \<le> length data"
  shows "copy_loop_unchecked behind base src [0..<n] data
         = Inr (take base data @ map (\<lambda>ii. unchecked_load behind src ii (base + ii)) [0..<n]
                @ drop (base + n) data)"
  using assms
proof (induction n)
  case 0
  then show ?case by simp
next
  case (Suc n)
  then show ?case
    by (simp add: copy_loop_unchecked_append store_def seg_update)
qed

lemma pad_weights_loop_unchecked_append:
  "pad_weights_loop_unchecked behind base src (xs @ ys) st
   = and_then (pad_weights_loop_unchecked behind base src xs st)
       (pad_weights_loop_unchecked behind base src ys)"
  by (induction xs arbitrary: st) (auto split: sum.splits prod.splits)

lemma pad_weights_loop_unchecked_upt:
  assumes "base + n \<le> length data"
  shows "pad_weights_loop_unchecked behind base src [0..<n] (data, 0)
         = Inr (take base data
                @ map (\<lambda>ii. if (ii + 1) mod 4 = 0 then 0
                             else unchecked_load behind src (ii - ii div 4) (base + ii)) [0..<n]
                @ drop (base + n) data, n - n div 4)"
  using assms
proof (induction n)
  case 0
  then show ?case by simp
next
  case (Suc n)
  from Suc.prems have a: "base + n \<le> length data" "base + n < length data" by arith+
  show ?case
  proof (cases "(n + 1) mod 4 = 0")
    case True
    then have "Suc n - Suc n div 4 = n - n div 4" by (simp add: div_Suc)
    with True Suc.IH [OF a(1)] a(2) show ?thesis
      by (simp add: pad_weights_loop_unchecked_append store_def seg_update)
  next
    case False
    then have e: "Suc n - Suc n div 4 = Suc (n - n div 4)" by (simp add: div_Suc Suc_diff_le)
    with False Suc.IH [OF a(1)] a(2) show ?thesis
      by (simp add: pad_weights_loop_unchecked_append store_def seg_update)
  qed
qed

lemma pad_bias_loop_unchecked_append:
  "pad_bias_loop_unchecked behind base src (xs @ ys) data
   = and_then (pad_bias_loop_unchecked behind base src xs data)
       (pad_bias_loop_unchecked behind base src ys)"
  by (induction xs arbitrary: data) (auto split: sum.splits)

lemma pad_bias_loop_unchecked_upt:
  assumes "base + n \<le> length data"
  shows "pad_bias_loop_unchecked behind base src [0..<n] data
         = Inr (take base data
                @ map (\<lambda>ii. if (ii + 1) mod 4 = 0 then 0
                             else unchecked_load behind src ii (base + ii)) [0..<n]
                @ drop (base + n) data)"
  using assms
proof (induction n)
  case 0
  then show ?case by simp
next
  case (Suc n)
  then show ?case
    by (simp add: pad_bias_loop_unchecked_append store_def seg_update)
qed


lemma copy_loop_unchecked_step:
  assumes "base = length pre" "n \<le> length rest"
  shows "copy_loop_unchecked behind base src [0..<n] (pre @ rest)
         = Inr ((pre @ map (\<lambda>ii. unchecked_load behind src ii (base + ii)) [0..<n]) @ drop n rest)"
  using copy_loop_unchecked_upt [of base n "pre @ rest" behind src] assms by simp

lemma pad_weights_loop_unchecked_step:
  assumes "base = length pre" "n \<le> length rest"
  shows "pad_weights_loop_unchecked behind base src [0..<n] (pre @ rest, 0)
         = Inr ((pre @ map (\<lambda>ii. if (ii + 1) mod 4 = 0 then 0
                                  else unchecked_load behind src (ii - ii div 4) (base + ii)) [0..<n])
                @ drop n rest, n - n div 4)"
  using pad_weights_loop_unchecked_upt [of base n "pre @ rest" behind src] assms by simp

lemma pad_bias_loop_unchecked_step:
  assumes "base = length pre" "n \<le> length rest"
  shows "pad_bias_loop_unchecked behind base src [0..<n] (pre @ rest)
         = Inr ((pre @ map (\<lambda>ii. if (ii + 1) mod 4 = 0 then 0
                                  else unchecked_load behind src ii (base + ii)) [0..<n])
                @ drop n rest)"
  using pad_bias_loop_unchecked_upt [of base n "pre @ rest" behind src] assms by simp

lemma pack_mlp_unchecked_ok:
  assumes l: "total_count c \<le> length data0"
  shows "pack_mlp_unchecked behind c d data0 = Inr (packed_unchecked behind c d data0)"
proof -
  define w0 w1 w2 b0 b1 b2 where cs: "w0 = WEIGHTS_0_COUNT c" "w1 = WEIGHTS_1_COUNT c"
    "w2 = WEIGHTS_2_COUNT c" "b0 = BIAS_0_COUNT c" "b1 = BIAS_1_COUNT c" "b2 = BIAS_2_COUNT c"
  define s0 s1 s2 s3 s4 s5 where ss:
    "s0 = map (\<lambda>ii. unchecked_load behind (concat (weights_0 d)) ii (0 + ii)) [0..<w0]"
    "s1 = map (\<lambda>ii. unchecked_load behind (concat (weights_1 d)) ii (w0 + ii)) [0..<w1]"
    "s2 = map (\<lambda>ii. if (ii + 1) mod 4 = 0 then 0
               else unchecked_load behind (concat (weights_2 d)) (ii - ii div 4) (w0 + w1 + ii))
            [0..<w2]"
    "s3 = map (\<lambda>ii. unchecked_load behind (bias_0 d) ii (w0 + w1 + w2 + ii)) [0..<b0]"
    "s4 = map (\<lambda>ii. unchecked_load behind (bias_1 d) ii (w0 + w1 + w2 + b0 + ii)) [0..<b1]"
    "s5 = map (\<lambda>ii. if (ii + 1) mod 4 = 0 then 0
               else unchecked_load behind (bias_2 d) ii (w0 + w1 + w2 + b0 + b1 + ii)) [0..<b2]"
  define r1 r2 r3 r4 r5 r6 where rs: "r1 = drop w0 data0" "r2 = drop w1 r1" "r3 = drop w2 r2"
    "r4 = drop b0 r3" "r5 = drop b1 r4" "r6 = drop b2 r5"
  from l have tl: "w0 + w1 + w2 + b0 + b1 + b2 \<le> length data0"
    by (simp add: total_count_def cs)
  have ls: "length s0 = w0" "length s1 = w1" "length s2 = w2" "length s3 = b0" "length s4 = b1"
    by (simp_all add: ss)
  have lr: "w0 \<le> length data0" "w1 \<le> length r1" "w2 \<le> length r2" "b0 \<le> length r3"
    "b1 \<le> length r4" "b2 \<le> length r5"
    using tl by (simp_all add: rs)
  have 1: "copy_loop_unchecked behind 0 (concat (weights_0 d)) [0..<w0] data0 = Inr (s0 @ r1)"
    using copy_loop_unchecked_step [of 0 "[]" w0 data0 behind "concat (weights_0 d)"] lr(1)
    by (simp add: ss rs)
  have 2: "copy_loop_unchecked behind w0 (concat (weights_1 d)) [0..<w1] (s0 @ r1)
           = Inr ((s0 @ s1) @ r2)"
    unfolding ss(2) rs(2) by (rule copy_loop_unchecked_step) (simp_all add: ls lr)
  have 3: "pad_weights_loop_unchecked behind (w0 + w1) (concat (weights_2 d)) [0..<w2]
             ((s0 @ s1) @ r2, 0)
           = Inr (((s0 @ s1) @ s2) @ r3, w2 - w2 div 4)"
    unfolding ss(3) rs(3) by (rule pad_weights_loop_unchecked_step) (simp_all add: ls lr)
  have 4: "copy_loop_unchecked behind (w0 + w1 + w2) (bias_0 d) [0..<b0] (((s0 @ s1) @ s2) @ r3)
           = Inr ((((s0 @ s1) @ s2) @ s3) @ r4)"
    unfolding ss(4) rs(4) by (rule copy_loop_unchecked_step) (simp_all add: ls lr)
  have 5: "copy_loop_unchecked behind (w0 + w1 + w2 + b0) (bias_1 d) [0..<b1]
             ((((s0 @ s1) @ s2) @ s3) @ r4)
           = Inr (((((s0 @ s1) @ s2) @ s3) @ s4) @ r5)"
    unfolding ss(5) rs(5) by (rule copy_loop_unchecked_step) (simp_all add: ls lr)
  have 6: "pad_bias_loop_unchecked behind (w0 + w1 + w2 + b0 + b1) (bias_2 d) [0..<b2]
             (((((s0 @ s1) @ s2) @ s3) @ s4) @ r5)
           = Inr ((((((s0 @ s1) @ s2) @ s3) @ s4) @ s5) @ r6)"
    unfolding ss(6) rs(6) by (rule pad_bias_loop_unchecked_step) (simp_all add: ls lr)
  have "pack_mlp_unchecked behind c d data0 = Inr ((((((s0 @ s1) @ s2) @ s3) @ s4) @ s5) @ r6)"
    unfolding pack_mlp_unchecked_def Let_def flatten_concat cs [symmetric] append_Nil
    by (simp only: 1 2 3 4 5 6 and_then_simps prod.case)
  moreover have "r6 = drop (total_count c) data0"
    by (simp add: rs total_count_def cs ac_simps)
  ultimately show ?thesis
    by (simp add: packed_unchecked_def Let_def ss cs)
qed

lemma length_packed_unchecked:
  "total_count c \<le> length data0 \<Longrightarrow> length (packed_unchecked behind c d data0) = length data0"
  by (simp add: packed_unchecked_def Let_def total_count_def)

text \<open>The unchecked loops give the result of the checked ones whenever those give one.\<close>

lemma copy_loop_agree:
  "copy_loop base src is data = Inr r \<Longrightarrow> copy_loop_unchecked behind base src is data = Inr r"
  by (induction "is" arbitrary: data)
     (auto simp: load_def unchecked_load_def split: sum.splits if_splits)

lemma pad_weights_loop_agree:
  "pad_weights_loop base src is st = Inr r \<Longrightarrow>
   pad_weights_loop_unchecked behind base src is st = Inr r"
proof (induction "is" arbitrary: st)
  case Nil
  obtain data cnt where st: "st = (data, cnt)" by (cases st) auto
  from Nil show ?case unfolding st by auto
next
  case (Cons ii "is")
  obtain data cnt where st: "st = (data, cnt)" by (cases st) auto
  from Cons.prems Cons.IH show ?case
    unfolding st by (auto simp: load_def unchecked_load_def split: sum.splits if_splits)
qed

lemma pad_bias_loop_agree:
  "pad_bias_loop base src is data = Inr r \<Longrightarrow>
   pad_bias_loop_unchecked behind base src is data = Inr r"
  by (induction "is" arbitrary: data)
     (auto simp: load_def unchecked_load_def split: sum.splits if_splits)

lemma pack_mlp_agree:
  assumes "pack_mlp c d data0 = Inr r"
  shows "pack_mlp_unchecked behind c d data0 = Inr r"
proof -
  from assms obtain d1 d2 d3 cnt d4 d5 where
    1: "copy_loop 0 (flatten (weights_0 d) []) [0..<WEIGHTS_0_COUNT c] data0 = Inr d1" and
    2: "copy_loop (WEIGHTS_0_COUNT c) (flatten (weights_1 d) []) [0..<WEIGHTS_1_COUNT c] d1 = Inr d2" and
    3: "pad_weights_loop (WEIGHTS_0_COUNT c + WEIGHTS_1_COUNT c) (flatten (weights_2 d) [])
          [0..<WEIGHTS_2_COUNT c] (d2, 0) = Inr (d3, cnt)" and
    4: "copy_loop (WEIGHTS_0_COUNT c + WEIGHTS_1_COUNT c + WEIGHTS_2_COUNT c) (bias_0 d)
          [0..<BIAS_0_COUNT c] d3 = Inr d4" and
    5: "copy_loop (WEIGHTS_0_COUNT c + WEIGHTS_1_COUNT c + WEIGHTS_2_COUNT c + BIAS_0_COUNT c)
          (bias_1 d) [0..<BIAS_1_COUNT c] d4 = Inr d5" and
    6: "pad_bias_loop (WEIGHTS_0_COUNT c + WEIGHTS_1_COUNT c + WEIGHTS_2_COUNT c + BIAS_0_COUNT c
          + BIAS_1_COUNT c) (bias_2 d) [0..<BIAS_2_COUNT c] d5 = Inr r"
    unfolding pack_mlp_def Let_def and_then_def by (auto split: sum.splits prod.splits)
  show ?thesis
    unfolding pack_mlp_unchecked_def Let_def
    by (simp add: copy_loop_agree [OF 1] copy_loop_agree [OF 2] pad_weights_loop_agree [OF 3]
        copy_loop_agree [OF 4] copy_loop_agree [OF 5] pad_bias_loop_agree [OF 6])
qed

lemma initialize_agree:
  assumes "initialize_mlp_uniform_buffers c mi d st = Inr st'"
  shows "initialize_mlp_uniform_buffers_unchecked behind c mi d st = Inr st'"
proof -
  from assms obtain ms1 ms2 buf r ms3 where
    1: "resize_models (models st) (obj_num d) = Inr ms1" and
    2: "assign_loop (\<lambda>m. m\<lparr>model_index := int mi\<rparr>) [length (models st)..<length ms1] ms1 = Inr ms2" and
    3: "load (mlp_weight_vector st) mi = Inr buf" and
    4: "pack_mlp c d buf = Inr r" and
    5: "assign_loop (\<lambda>m. m\<lparr>sub_model_num := obj_num d\<rparr>)
          (map (\<lambda>i. length (models st) + i) [0..<nat (obj_num d)]) ms2 = Inr ms3" and
    6: "st' = st\<lparr>models := ms3, mlp_weight_vector := (mlp_weight_vector st)[mi := r],
                  log := log st @ mlp_count_checks c d\<rparr>"
    unfolding initialize_mlp_uniform_buffers_def Let_def and_then_def
    by (auto split: sum.splits)
  show ?thesis
    unfolding initialize_mlp_uniform_buffers_unchecked_def Let_def
    by (simp add: 1 2 3 5 6 pack_mlp_agree [OF 4])
qed



lemma packed_unchecked_enough:
  assumes "enough_elements c d" "total_count c \<le> length data0"
  shows "packed_unchecked behind c d data0 = packed c d data0"
proof -
  from pack_mlp_agree [OF pack_mlp_ok [OF assms], of behind] pack_mlp_unchecked_ok [OF assms(2)]
  have "Inr (packed_unchecked behind c d data0) = (Inr (packed c d data0) :: error + 'a list)"
    by (simp only:)
  then show ?thesis by simp
qed




text \<open>
  With 3 weights in layer 0 instead of 4, the first loop reads \<^verbatim>\<open>weights_0_array[3]\<close>
  past the end of the vector: the loops with checked reads stop there.
\<close>

lemma copy_loop_short:
  assumes "length src < n" "base + length src \<le> length data"
  shows "copy_loop base src [0..<n] data = Inl OutOfBounds"
proof -
  have "[0..<n] = [0..<length src] @ length src # [Suc (length src)..<n]"
    using assms(1) by (metis less_imp_le_nat upt_add_eq_append upt_conv_Cons zero_le le_add_diff_inverse)
  then show ?thesis
    using copy_loop_upt [of "length src" src base data] assms(2)
    by (simp add: copy_loop_append load_def)
qed


lemma short_read:
  "pack_mlp sample_counts_64 short_mlp (replicate 80 0) = Inl OutOfBounds"
proof -
  have "copy_loop 0 (flatten (weights_0 short_mlp) []) [0..<WEIGHTS_0_COUNT sample_counts_64]
          (replicate 80 0) = Inl OutOfBounds"
    by (rule copy_loop_short) (simp_all add: short_mlp_def sample_counts_64_def)
  then show ?thesis
    by (simp add: pack_mlp_def Let_def)
qed







text \<open>
  Claim C2. A deferred scene gets a render pass of 2 sub-passes over 5 attachments, whose
  sub-pass 1 reads 3 input attachments, and a second-pass descriptor set layout with
  exactly 3 input attachments, used by the pipeline of sub-pass 1. A forward scene gets a
  render pass of 1 sub-pass over 2 attachments with no input attachment, no second-pass
  layout, and a first-pass layout without input attachments.
\<close>

theorem topology_selection:
  "(let t = select_topology True fmt_feature fmt_depth fmt_swapchain n in
      length (pSubpasses (render_pass_nerf t)) = 2 \<and>
      length (pAttachments (render_pass_nerf t)) = 5 \<and>
      map (\<lambda>s. length (pInputAttachments s)) (pSubpasses (render_pass_nerf t)) = [0, 3] \<and>
      map_option input_attachment_count (descriptor_set_layout_baseline t) = Some 3 \<and>
      map_option (\<lambda>p. (pipeline_layout p, subpass p)) (pipeline_baseline t)
        = Some (pipeline_layout_baseline, 1) \<and>
      input_attachment_count (descriptor_set_first_pass_layout t) = 0) \<and>
   (let t = select_topology False fmt_feature fmt_depth fmt_swapchain n in
      length (pSubpasses (render_pass_nerf t)) = 1 \<and>
      length (pAttachments (render_pass_nerf t)) = 2 \<and>
      map (\<lambda>s. length (pInputAttachments s)) (pSubpasses (render_pass_nerf t)) = [0] \<and>
      descriptor_set_layout_baseline t = None \<and>
      pipeline_baseline t = None \<and>
      input_attachment_count (descriptor_set_first_pass_layout t) = 0)"
  by (simp add: select_topology_def update_render_pass_nerf_baseline_def
      update_render_pass_nerf_forward_def create_pipeline_layout_baseline_def
      create_pipeline_layout_fist_pass_def prepare_pipelines_def input_attachment_count_def
      Let_def)

lemma and_then_Inl:
  "and_then r f = Inl e \<Longrightarrow> r = Inl e \<or> (\<exists>v. r = Inr v \<and> f v = Inl e)"
  by (cases r) simp_all

lemma and_then_Inr:
  "and_then r f = Inr s \<Longrightarrow> \<exists>v. r = Inr v \<and> f v = Inr s"
  by (cases r) simp_all

lemma member_err: "member k j = Inl e \<Longrightarrow> e = JsonException"
  by (cases j) simp_all

lemma element_err: "element i j = Inl e \<Longrightarrow> e = JsonException"
  by (cases j) simp_all

lemma get_string_err: "get_string j = Inl e \<Longrightarrow> e = JsonException"
  by (cases j) simp_all

lemma get_bool_err: "get_bool j = Inl e \<Longrightarrow> e = JsonException"
  by (cases j) simp_all

lemma get_int_err: "get_int j = Inl e \<Longrightarrow> e = JsonException"
  by (cases j) simp_all

lemma get_float_err: "get_float ops j = Inl e \<Longrightarrow> e = JsonException"
  by (cases j) simp_all

lemmas accessor_errs = member_err element_err get_string_err get_bool_err get_int_err get_float_err

lemma read_triple_err:
  assumes "\<And>j e. get j = Inl e \<Longrightarrow> e = JsonException"
  shows "read_triple get field = Inl e \<Longrightarrow> e = JsonException"
  unfolding read_triple_def
  by (auto split: if_splits dest!: and_then_Inl element_err assms)

lemma read_triple_int_err: "read_triple get_int field = Inl e \<Longrightarrow> e = JsonException"
  by (erule read_triple_err [rotated]) (rule get_int_err)

lemma read_triple_float_err:
  "read_triple (get_float ops) field = Inl e \<Longrightarrow> e = JsonException"
  by (erule read_triple_err [rotated]) (rule get_float_err)

lemma read_combo_models_err:
  "read_combo_models asset_map is = Inl e \<Longrightarrow> e = JsonException"
  by (induction "is" arbitrary: e) (auto dest!: and_then_Inl accessor_errs)

lemma read_models_err: "read_models asset_map cm = Inl e \<Longrightarrow> e = JsonException"
  unfolding read_models_def
  by (auto split: if_splits dest!: and_then_Inl accessor_errs read_combo_models_err)

lemma check_instancing_err: "check_instancing ops d i = Inl e \<Longrightarrow> e = Exit 1"
  unfolding check_instancing_def
  by (auto simp: Let_def split: prod.splits if_splits)

lemma read_instancing_err:
  "read_instancing ops asset_map = Inl e \<Longrightarrow> e = JsonException \<or> e = Exit 1"
  unfolding read_instancing_def
  by (auto split: option.splits
      dest!: and_then_Inl member_err read_triple_int_err read_triple_float_err
        check_instancing_err)

lemma read_json_map_err:
  "read_json_map ops camera_pos0 raw = Inl e \<Longrightarrow> e = JsonException \<or> e = Exit 1"
  unfolding read_json_map_def
  by (auto split: if_splits prod.splits
      dest!: and_then_Inl accessor_errs read_models_err read_instancing_err
        read_triple_float_err)

lemma read_triple_Some:
  "read_triple get field = Inr (Some (a, b, c)) \<Longrightarrow>
     three_array field \<and> and_then (element 0 field) get = Inr a \<and>
     and_then (element 1 field) get = Inr b \<and> and_then (element 2 field) get = Inr c"
  unfolding read_triple_def three_array_def
  by (auto split: if_splits dest!: and_then_Inr)

lemma read_triple_None: "read_triple get field = Inr None \<Longrightarrow> \<not> three_array field"
  unfolding read_triple_def three_array_def
  by (auto split: if_splits dest!: and_then_Inr)

lemma check_instancing_Inr:
  assumes "check_instancing ops (d0, d1, d2) (i0, i1, i2) = Inr r"
    and "\<forall>n\<le>0. float_to_int ops (int_to_float ops n) \<le> 0"
  shows "0 < d0 \<and> 0 < d1 \<and> 0 < d2 \<and> \<not> fle ops i0 0 \<and> \<not> fle ops i1 0 \<and> \<not> fle ops i2 0"
  using assms unfolding check_instancing_def
  by (auto simp: Let_def split: if_splits) (metis not_less)+

lemma read_instancing_Inr:
  assumes "read_instancing ops asset_map = Inr r"
    and "\<forall>n\<le>0. float_to_int ops (int_to_float ops n) \<le> 0"
    and "member ''instancing'' asset_map = Inr im"
    and "member ''dim'' im = Inr dm" and "member ''interval'' im = Inr iv"
  shows "three_array dm \<and> three_array iv \<and> \<not> has_component get_int (\<lambda>n. n \<le> 0) dm \<and>
         \<not> has_component (get_float ops) (\<lambda>v. fle ops v 0) iv"
proof -
  from assms(1,3,4,5) obtain d i where
    d: "read_triple get_int dm = Inr (Some d)" and
    i: "read_triple (get_float ops) iv = Inr (Some i)" and
    c: "check_instancing ops d i = Inr r"
    unfolding read_instancing_def
    by (auto split: option.splits dest!: and_then_Inr)
  obtain d0 d1 d2 i0 i1 i2 where di: "d = (d0, d1, d2)" "i = (i0, i1, i2)"
    by (cases d, cases i) auto
  from read_triple_Some [OF d [unfolded di]] read_triple_Some [OF i [unfolded di]]
    check_instancing_Inr [OF c [unfolded di] assms(2)]
  show ?thesis
    by (auto simp: has_component_def)
qed

lemma bad_instancing_no_scene:
  assumes "bad_instancing ops raw"
    and "\<forall>n\<le>0. float_to_int ops (int_to_float ops n) \<le> 0"
  shows "read_json_map ops camera_pos0 raw \<noteq> Inr sc"
proof
  assume "read_json_map ops camera_pos0 raw = Inr sc"
  then obtain tm t am r where
    n: "member ''target_model'' raw = Inr tm" "get_string tm = Inr t" "member t raw = Inr am" and
    r: "read_instancing ops am = Inr r"
    unfolding read_json_map_def
    by (auto split: prod.splits dest!: and_then_Inr)
  from n have t: "target_asset_map raw = Inr am"
    by (simp add: target_asset_map_def)
  from r obtain im dm iv where
    m: "member ''instancing'' am = Inr im" "member ''dim'' im = Inr dm" "member ''interval'' im = Inr iv"
    unfolding read_instancing_def
    by (auto split: option.splits dest!: and_then_Inr)
  from read_instancing_Inr [OF r assms(2) m] assms(1) t m show False
    by (simp add: bad_instancing_def)
qed

text \<open>
  Claim C4. When the instancing field of the target scene has a \<^verbatim>\<open>dim\<close> or an \<^verbatim>\<open>interval\<close>
  that is not an array of three, or a component at most 0, \<^verbatim>\<open>read_json_map\<close> does not
  return: it ends in \<^verbatim>\<open>exit(1)\<close>, unless an accessor of the JSON library has thrown on a
  field of the wrong type before; and \<^verbatim>\<open>prepare\<close> stops there, before
  \<^verbatim>\<open>ApiVulkanSample::prepare\<close> and so before any resource of the GPU is created. The
  second hypothesis is a fact of float arithmetic: an \<^verbatim>\<open>int\<close> that is at most 0 is still at
  most 0 after its way through the \<^verbatim>\<open>glm::vec3\<close>.
\<close>

theorem bad_instancing_fatal:
  assumes "bad_instancing ops raw_asset_map"
    and "\<forall>n\<le>0. float_to_int ops (int_to_float ops n) \<le> 0"
  shows "\<exists>e. read_json_map ops camera_pos0 raw_asset_map = Inl e \<and>
             (e = Exit 1 \<or> e = JsonException) \<and>
             prepare ops c fw camera_pos0 raw_asset_map = (False, Inl e)"
proof (cases "read_json_map ops camera_pos0 raw_asset_map")
  case (Inl e)
  with read_json_map_err [OF Inl] show ?thesis
    by (auto simp: prepare_def)
next
  case (Inr sc)
  with bad_instancing_no_scene [OF assms] show ?thesis by blast
qed

lemma exact_round_trip: "\<forall>n\<le>0. float_to_int exact_ops (int_to_float exact_ops n) \<le> 0"
  by (simp add: exact_ops_def)

lemma sample_zero_dim_bad:
  "bad_instancing exact_ops (sample_document (JArray [JNumber 0 0, JNumber 1 1, JNumber 1 1]))"
  by (simp add: bad_instancing_def sample_document_def scene_entry_def target_asset_map_def
      three_array_def has_component_def exact_ops_def)

text \<open>
  The built-in scene with a dimension of \<open>[0, 1, 1]\<close>: \<^verbatim>\<open>exit(1)\<close>, nothing created.
\<close>

theorem bad_instancing_fatal_witness:
  "bad_instancing exact_ops (sample_document (JArray [JNumber 0 0, JNumber 1 1, JNumber 1 1])) \<and>
   read_json_map exact_ops (0, 0, 0)
     (sample_document (JArray [JNumber 0 0, JNumber 1 1, JNumber 1 1])) = Inl (Exit 1) \<and>
   prepare exact_ops sample_counts sample_framework (0, 0, 0)
     (sample_document (JArray [JNumber 0 0, JNumber 1 1, JNumber 1 1])) = (False, Inl (Exit 1))"
proof -
  let ?doc = "sample_document (JArray [JNumber 0 0, JNumber 1 1, JNumber 1 1])"
  from bad_instancing_fatal [OF sample_zero_dim_bad exact_round_trip, of "(0, 0, 0)" sample_counts sample_framework]
  obtain e where
    r: "read_json_map exact_ops (0, 0, 0) ?doc = Inl e" and
    p: "prepare exact_ops sample_counts sample_framework (0, 0, 0) ?doc = (False, Inl e)"
    by blast
  have "read_json_map exact_ops (0, 0, 0) ?doc = Inl (Exit 1)"
    by (simp add: read_json_map_def sample_document_def scene_entry_def read_models_def
        read_triple_def read_instancing_def check_instancing_def exact_ops_def)
  with r have "e = Exit 1" by simp
  with r p sample_zero_dim_bad show ?thesis by simp
qed

lemma prepare_Inr:
  assumes "prepare ops c fw camera_pos0 raw = (started, Inr p)"
  shows "\<exists>sc. read_json_map ops camera_pos0 raw = Inr sc \<and> the_scene p = sc \<and> started \<and>
           the_camera p = prepare_camera (glm_library fw) ops (window_width fw)
             (window_height fw) (framework_camera fw) (camera_pos sc)"
  using assms unfolding prepare_def
  by (auto split: sum.splits if_splits)

lemma read_json_map_camera:
  assumes "read_json_map ops camera_pos0 raw = Inr sc"
    and "target_asset_map raw = Inr am"
    and "member ''camera'' am = Inr (JArray [JNumber ix x, JNumber iy y, JNumber iz z])"
  shows "camera_pos sc = (x, y, z)"
proof -
  from assms(1) obtain tm t am' cam camera where
    n: "member ''target_model'' raw = Inr tm" "get_string tm = Inr t" "member t raw = Inr am'" and
    c: "member ''camera'' am' = Inr cam" "read_triple (get_float ops) cam = Inr camera" and
    s: "camera_pos sc = (case camera of None \<Rightarrow> camera_pos0 | Some v \<Rightarrow> v)"
    unfolding read_json_map_def
    by (auto split: prod.splits dest!: and_then_Inr)
  from n assms(2) have "am' = am" by (simp add: target_asset_map_def)
  with c assms(3) have "cam = JArray [JNumber ix x, JNumber iy y, JNumber iz z]" by simp
  with c(2) have "camera = Some (x, y, z)"
    by (simp add: read_triple_def)
  with s show ?thesis by simp
qed

text \<open>
  Claim C10. When \<^verbatim>\<open>prepare\<close> reaches the camera and the target scene configures the
  camera position \<open>[x, y, z]\<close>, the position read is \<open>(x, y, z)\<close>, and the look-at towards
  the origin is computed for a camera at \<open>(x, -y, z)\<close>.
\<close>

theorem camera_y_negated:
  assumes "prepare ops c fw camera_pos0 raw_asset_map = (started, Inr p)"
    and "target_asset_map raw_asset_map = Inr asset_map"
    and "member ''camera'' asset_map = Inr (JArray [JNumber ix x, JNumber iy y, JNumber iz z])"
  shows "camera_pos (the_scene p) = (x, y, z) \<and>
         the_camera p =
           set_perspective
             (camera_set_look_at (glm_library fw) ops
                ((framework_camera fw)\<lparr>camera_type := LookAt, position := (x, fneg ops y, z)\<rparr>)
                (0, 0, 0) (0, flit ops 1, 0))
             (flit ops 60)
             (fdiv ops (int_to_float ops (window_width fw)) (int_to_float ops (window_height fw)))
             (flit ops (1 / 100)) (flit ops 256)"
proof -
  from prepare_Inr [OF assms(1)] obtain sc where
    r: "read_json_map ops camera_pos0 raw_asset_map = Inr sc" and s: "the_scene p = sc" and
    c: "the_camera p = prepare_camera (glm_library fw) ops (window_width fw)
             (window_height fw) (framework_camera fw) (camera_pos sc)"
    by blast
  from read_json_map_camera [OF r assms(2,3)] have "camera_pos sc = (x, y, z)" .
  with s c show ?thesis
    by (simp add: prepare_camera_def set_position_def Let_def)
qed

lemma sample_read:
  "read_json_map exact_ops (0, 0, 0) (sample_document (JArray [JNumber 1 1, JNumber 1 1, JNumber 1 1]))
   = Inr \<lparr>combo_mode = False, model_path = [''scenes/lego_ball_phone/''],
           using_original_nerf_models = [False],
           feature_map_format = VK_FORMAT_R8G8B8A8_UNORM,
           use_deferred = False, do_rotation = True,
           view_port_width = 0, view_port_height = 0,
           camera_pos = (-1, 1, 1),
           instancing_dim = (1, 1, 1), instancing_interval = (2, 2, 2)\<rparr>"
  by (simp add: read_json_map_def sample_document_def scene_entry_def read_models_def
      read_triple_def read_instancing_def check_instancing_def exact_ops_def texture_format_def)

lemma sample_prepare:
  "\<exists>p. prepare exact_ops sample_counts sample_framework (0, 0, 0)
         (sample_document (JArray [JNumber 1 1, JNumber 1 1, JNumber 1 1])) = (True, Inr p)"
proof -
  let ?st = "\<lparr>models = [], mlp_weight_vector = [MLP_Weights_zero sample_counts :: rat list], log = []\<rparr>"
  have "\<exists>st'. initialize_mlp_uniform_buffers sample_counts 0 sample_mlp ?st = Inr st'"
    using initialize_ok [OF sample_enough, of 0 ?st]
    by (auto simp: sample_mlp_def MLP_Weights_zero_def)
  then obtain st' where "initialize_mlp_uniform_buffers sample_counts 0 sample_mlp ?st = Inr st'" ..
  then show ?thesis
    by (simp add: prepare_def sample_read sample_framework_def load_def)
qed

text \<open>
  The built-in scene configures \<open>[-1, 1, 1]\<close>; with a glm whose view matrix is the eye
  position, the camera ends at \<open>(-1, -1, 1)\<close>.
\<close>

theorem camera_y_negated_witness:
  "\<exists>p. prepare exact_ops sample_counts sample_framework (0, 0, 0)
         (sample_document (JArray [JNumber 1 1, JNumber 1 1, JNumber 1 1])) = (True, Inr p) \<and>
       camera_pos (the_scene p) = (-1, 1, 1) \<and>
       position (the_camera p) = (-1, -1, 1)"
proof -
  let ?doc = "sample_document (JArray [JNumber 1 1, JNumber 1 1, JNumber 1 1])"
  from sample_prepare obtain p where
    p: "prepare exact_ops sample_counts sample_framework (0, 0, 0) ?doc = (True, Inr p)" ..
  have t: "target_asset_map ?doc
           = Inr (scene_entry (JArray [JNumber 1 1, JNumber 1 1, JNumber 1 1]))"
    by (simp add: target_asset_map_def sample_document_def)
  have m: "member ''camera'' (scene_entry (JArray [JNumber 1 1, JNumber 1 1, JNumber 1 1]))
           = Inr (JArray [JNumber (-1) (-1), JNumber 1 1, JNumber 1 1])"
    by (simp add: scene_entry_def)
  from camera_y_negated [OF p t m] have "camera_pos (the_scene p) = (-1, 1, 1)"
    "position (the_camera p) = (-1, -1, 1)"
    by (simp_all add: camera_set_look_at_def set_perspective_def set_position_def
        set_rotation_def sample_framework_def exact_ops_def Let_def)
  with p show ?thesis by blast
qed

lemma lattice_size_valid:
  assumes "1 \<le> dx" "1 \<le> dy" "1 \<le> dz" "dx * dy * dz \<le> INT_MAX"
  shows "lattice_size (dx, dy, dz) = Inr (dx * dy * dz)"
proof -
  from assms(1,2) have p: "0 \<le> dx * dy" by simp
  with assms(3) have "dx * dy * 1 \<le> dx * dy * dz" by (intro mult_left_mono) simp_all
  with assms(4) have 1: "dx * dy \<le> INT_MAX" by simp
  from p assms(3) have "0 \<le> dx * dy * dz" by simp
  with p 1 assms(4) show ?thesis
    by (simp add: lattice_size_def checked_int_def INT_MIN_def)
qed

lemma draw_models_ok:
  assumes "lattice_size d = Inr n"
  shows "\<exists>cmds. draw_models deferred i d k ms = Inr cmds \<and>
           filter is_draw_indexed cmds
             = map (\<lambda>m. vkCmdDrawIndexed (word_of_nat (length (indices m)) * 3) (word_of_int n) 0 0 0) ms"
proof (induction ms arbitrary: k)
  case Nil
  then show ?case by simp
next
  case (Cons m ms)
  from Cons [of "k + 1"] obtain more where
    "draw_models deferred i d (k + 1) ms = Inr more"
    "filter is_draw_indexed more
       = map (\<lambda>m. vkCmdDrawIndexed (word_of_nat (length (indices m)) * 3) (word_of_int n) 0 0 0) ms"
    by blast
  with assms show ?case by simp
qed

lemma record_commands_ok:
  assumes "lattice_size d = Inr n"
  shows "\<exists>cmds. record_commands deferred width height d ms i = Inr cmds \<and>
           filter is_draw_indexed cmds
             = map (\<lambda>m. vkCmdDrawIndexed (word_of_nat (length (indices m)) * 3) (word_of_int n) 0 0 0) ms"
proof -
  from draw_models_ok [OF assms, of deferred i 0 ms] obtain draws where
    "draw_models deferred i d 0 ms = Inr draws"
    "filter is_draw_indexed draws
       = map (\<lambda>m. vkCmdDrawIndexed (word_of_nat (length (indices m)) * 3) (word_of_int n) 0 0 0) ms"
    by blast
  then show ?thesis by (simp add: record_commands_def)
qed

lemma record_loop_ok:
  assumes "lattice_size d = Inr n"
  shows "\<exists>bufs. record_loop deferred width height d ms is = Inr bufs \<and> length bufs = length is \<and>
           (\<forall>cmds\<in>set bufs. filter is_draw_indexed cmds
             = map (\<lambda>m. vkCmdDrawIndexed (word_of_nat (length (indices m)) * 3) (word_of_int n) 0 0 0) ms)"
proof (induction "is")
  case Nil
  then show ?case by simp
next
  case (Cons i "is")
  from record_commands_ok [OF assms, of deferred width height ms i] obtain cmds where
    c: "record_commands deferred width height d ms i = Inr cmds"
    "filter is_draw_indexed cmds
       = map (\<lambda>m. vkCmdDrawIndexed (word_of_nat (length (indices m)) * 3) (word_of_int n) 0 0 0) ms"
    by blast
  from Cons obtain more where
    m: "record_loop deferred width height d ms is = Inr more" "length more = length is"
    "\<forall>cmds\<in>set more. filter is_draw_indexed cmds
       = map (\<lambda>m. vkCmdDrawIndexed (word_of_nat (length (indices m)) * 3) (word_of_int n) 0 0 0) ms"
    by blast
  from c m show ?case by simp
qed

lemma assign_loop_length: "assign_loop f is ms = Inr ms' \<Longrightarrow> length ms' = length ms"
  by (induction "is" arbitrary: ms)
    (auto simp: load_def store_def and_then_def split: if_splits sum.splits)

lemma initialize_models_length:
  assumes "initialize_mlp_uniform_buffers c mi d st = Inr st'" "0 \<le> obj_num d"
  shows "length (models st') = length (models st) + nat (obj_num d)"
proof -
  from assms(1) obtain ms1 ms2 ms3 where
    1: "resize_models (models st) (obj_num d) = Inr ms1" and
    2: "assign_loop (\<lambda>m. m\<lparr>model_index := int mi\<rparr>) [length (models st)..<length ms1] ms1 = Inr ms2" and
    3: "assign_loop (\<lambda>m. m\<lparr>sub_model_num := obj_num d\<rparr>)
          (map (\<lambda>i. length (models st) + i) [0..<nat (obj_num d)]) ms2 = Inr ms3" and
    4: "models st' = ms3"
    unfolding initialize_mlp_uniform_buffers_def Let_def
    by (auto dest!: and_then_Inr)
  from 1 assms(2) have "ms1 = models st @ replicate (nat (obj_num d)) new_model"
    by (simp add: resize_models_grow)
  then have "length ms1 = length (models st) + nat (obj_num d)" by simp
  with assign_loop_length [OF 2] assign_loop_length [OF 3] 4 show ?thesis by simp
qed

lemma prepare_single_model:
  assumes p: "prepare ops c fw camera_pos0 raw = (True, Inr p)"
    and s: "model_path (the_scene p) = [path]"
    and f: "mlp_file fw path = Some d" and o: "obj_num d = 1"
  shows "length (models (the_mlp_state p)) = 1"
proof -
  from p obtain sc st where
    r: "read_json_map ops camera_pos0 raw = Inr sc" and
    i: "initialize_loop c (mlp_file fw) (model_path sc) [0..<length (model_path sc)]
          \<lparr>models = [], mlp_weight_vector = replicate (length (model_path sc)) (MLP_Weights_zero c),
           log = []\<rparr> = Inr st" and
    e: "the_scene p = sc" "the_mlp_state p = st"
    unfolding prepare_def by (auto split: sum.splits if_splits)
  from i s e f have "initialize_mlp_uniform_buffers c 0 d
          \<lparr>models = [], mlp_weight_vector = [MLP_Weights_zero c], log = []\<rparr> = Inr st"
    by (auto simp: load_def and_then_def split: sum.splits)
  from initialize_models_length [OF this] o e show ?thesis by simp
qed

text \<open>
  Claim C8. For dimensions that are at least 1 and whose product is an \<^verbatim>\<open>int\<close>, every
  command buffer that \<^verbatim>\<open>build_command_buffers_baseline\<close> records holds exactly one
  \<^verbatim>\<open>vkCmdDrawIndexed\<close> for each model, in the order of the models, with three indices for
  each triangle of the model and with the product of the dimensions as instance count.
  And when \<^verbatim>\<open>prepare\<close> has loaded a scene with one model path, whose \<^verbatim>\<open>mlp.json\<close> counts
  one sub-model, and with the dimension \<open>(1, 1, 1)\<close>, there is exactly one \<^verbatim>\<open>Model\<close>
  entry, and the command buffers recorded for one entry hold exactly one draw call, of
  instance count 1.
\<close>

theorem one_draw_per_model:
  "(1 \<le> dx \<and> 1 \<le> dy \<and> 1 \<le> dz \<and> dx * dy * dz \<le> INT_MAX \<longrightarrow>
      (\<exists>bufs. build_command_buffers_baseline deferred width height (dx, dy, dz) ms n = Inr bufs \<and>
         length bufs = n \<and>
         (\<forall>cmds\<in>set bufs. filter is_draw_indexed cmds =
            map (\<lambda>m. vkCmdDrawIndexed (word_of_nat (length (indices m)) * 3)
                       (word_of_int (dx * dy * dz)) 0 0 0) ms))) \<and>
   (prepare ops c fw camera_pos0 raw_asset_map = (True, Inr p) \<and>
    model_path (the_scene p) = [path] \<and> mlp_file fw path = Some d \<and> obj_num d = 1 \<and>
    instancing_dim (the_scene p) = (1, 1, 1) \<longrightarrow>
      length (models (the_mlp_state p)) = 1 \<and>
      (\<forall>m. \<exists>bufs. build_command_buffers_baseline (use_deferred (the_scene p)) width height
                     (instancing_dim (the_scene p)) [m] n = Inr bufs \<and>
         length bufs = n \<and>
         (\<forall>cmds\<in>set bufs. filter is_draw_indexed cmds =
            [vkCmdDrawIndexed (word_of_nat (length (indices m)) * 3) 1 0 0 0])))"
proof (intro conjI impI)
  assume "1 \<le> dx \<and> 1 \<le> dy \<and> 1 \<le> dz \<and> dx * dy * dz \<le> INT_MAX"
  then have "lattice_size (dx, dy, dz) = Inr (dx * dy * dz)"
    by (simp add: lattice_size_valid)
  from record_loop_ok [OF this, of deferred width height ms "[0..<n]"]
  show "\<exists>bufs. build_command_buffers_baseline deferred width height (dx, dy, dz) ms n = Inr bufs \<and>
         length bufs = n \<and>
         (\<forall>cmds\<in>set bufs. filter is_draw_indexed cmds =
            map (\<lambda>m. vkCmdDrawIndexed (word_of_nat (length (indices m)) * 3)
                       (word_of_int (dx * dy * dz)) 0 0 0) ms)"
    by (simp add: build_command_buffers_baseline_def)
next
  assume a: "prepare ops c fw camera_pos0 raw_asset_map = (True, Inr p) \<and>
    model_path (the_scene p) = [path] \<and> mlp_file fw path = Some d \<and> obj_num d = 1 \<and>
    instancing_dim (the_scene p) = (1, 1, 1)"
  then show "length (models (the_mlp_state p)) = 1"
    using prepare_single_model by blast
next
  assume a: "prepare ops c fw camera_pos0 raw_asset_map = (True, Inr p) \<and>
    model_path (the_scene p) = [path] \<and> mlp_file fw path = Some d \<and> obj_num d = 1 \<and>
    instancing_dim (the_scene p) = (1, 1, 1)"
  have l: "lattice_size (1, 1, 1) = Inr 1"
    by (simp add: lattice_size_def checked_int_def INT_MIN_def INT_MAX_def)
  show "\<forall>m. \<exists>bufs. build_command_buffers_baseline (use_deferred (the_scene p)) width height
                     (instancing_dim (the_scene p)) [m] n = Inr bufs \<and>
         length bufs = n \<and>
         (\<forall>cmds\<in>set bufs. filter is_draw_indexed cmds =
            [vkCmdDrawIndexed (word_of_nat (length (indices m)) * 3) 1 0 0 0])"
  proof
    fix m
    from record_loop_ok [OF l, of "use_deferred (the_scene p)" width height "[m]" "[0..<n]"] a
    show "\<exists>bufs. build_command_buffers_baseline (use_deferred (the_scene p)) width height
                     (instancing_dim (the_scene p)) [m] n = Inr bufs \<and>
         length bufs = n \<and>
         (\<forall>cmds\<in>set bufs. filter is_draw_indexed cmds =
            [vkCmdDrawIndexed (word_of_nat (length (indices m)) * 3) 1 0 0 0])"
      by (simp add: build_command_buffers_baseline_def)
  qed
qed

text \<open>
  Two models on a lattice of \<open>2 * 2 * 2\<close>: two draw calls of 8 instances in each of the
  three command buffers. The built-in scene with one model: one entry, one draw call of
  one instance in each command buffer.
\<close>

theorem one_draw_per_model_witness:
  "(\<exists>bufs. build_command_buffers_baseline True 1280 720 (2, 2, 2)
             [new_model\<lparr>indices := [(0, 1, 2)]\<rparr>,
              new_model\<lparr>indices := [(0, 1, 2), (2, 1, 3)]\<rparr>] 3 = Inr bufs \<and>
           length bufs = 3 \<and>
           list_all (\<lambda>cmds. filter is_draw_indexed cmds
                      = [vkCmdDrawIndexed 3 8 0 0 0, vkCmdDrawIndexed 6 8 0 0 0]) bufs) \<and>
   (\<exists>p. prepare exact_ops sample_counts sample_framework (0, 0, 0)
           (sample_document (JArray [JNumber 1 1, JNumber 1 1, JNumber 1 1])) = (True, Inr p) \<and>
         length (models (the_mlp_state p)) = 1 \<and>
         (\<exists>bufs. build_command_buffers_baseline (use_deferred (the_scene p)) 1280 720
                    (instancing_dim (the_scene p)) [new_model\<lparr>indices := [(0, 1, 2)]\<rparr>] 2
                  = Inr bufs \<and>
                length bufs = 2 \<and>
                list_all (\<lambda>cmds. filter is_draw_indexed cmds = [vkCmdDrawIndexed 3 1 0 0 0]) bufs))"
proof -
  let ?doc = "sample_document (JArray [JNumber 1 1, JNumber 1 1, JNumber 1 1])"
  let ?m = "new_model\<lparr>indices := [(0, 1, 2)]\<rparr>"
  let ?ms = "[?m, new_model\<lparr>indices := [(0, 1, 2), (2, 1, 3)]\<rparr>]"
  have h: "(1::int) \<le> 2 \<and> (1::int) \<le> 2 \<and> (1::int) \<le> 2 \<and> (2::int) * 2 * 2 \<le> INT_MAX"
    by (simp add: INT_MAX_def)
  from one_draw_per_model [where dx = 2 and dy = 2 and dz = 2 and deferred = True and width = 1280
      and height = 720 and ms = ?ms and n = 3, THEN conjunct1] h
  have "\<exists>bufs. build_command_buffers_baseline True 1280 720 (2, 2, 2) ?ms 3 = Inr bufs \<and>
         length bufs = 3 \<and>
         (\<forall>cmds\<in>set bufs. filter is_draw_indexed cmds =
            map (\<lambda>m. vkCmdDrawIndexed (word_of_nat (length (indices m)) * 3)
                       (word_of_int (2 * 2 * 2)) 0 0 0) ?ms)"
    by blast
  then have 1: "\<exists>bufs. build_command_buffers_baseline True 1280 720 (2, 2, 2) ?ms 3 = Inr bufs \<and>
           length bufs = 3 \<and>
           list_all (\<lambda>cmds. filter is_draw_indexed cmds
                      = [vkCmdDrawIndexed 3 8 0 0 0, vkCmdDrawIndexed 6 8 0 0 0]) bufs"
    by (simp add: list_all_iff)
  from sample_prepare obtain p where
    p: "prepare exact_ops sample_counts sample_framework (0, 0, 0) ?doc = (True, Inr p)" ..
  from prepare_Inr [OF p] sample_read have sc:
    "model_path (the_scene p) = [''scenes/lego_ball_phone/'']"
    "instancing_dim (the_scene p) = (1, 1, 1)"
    by auto
  have f: "mlp_file sample_framework ''scenes/lego_ball_phone/'' = Some sample_mlp"
    "obj_num sample_mlp = 1"
    by (simp_all add: sample_framework_def sample_mlp_def)
  from one_draw_per_model [where width = 1280 and height = 720 and n = 2 and ops = exact_ops
      and c = sample_counts and fw = sample_framework and ?camera_pos0.0 = "(0, 0, 0)"
      and raw_asset_map = ?doc and p = p and path = "''scenes/lego_ball_phone/''"
      and d = sample_mlp, THEN conjunct2] p sc f
  have 2: "length (models (the_mlp_state p)) = 1 \<and>
      (\<forall>m. \<exists>bufs. build_command_buffers_baseline (use_deferred (the_scene p)) 1280 720
                     (instancing_dim (the_scene p)) [m] 2 = Inr bufs \<and>
         length bufs = 2 \<and>
         (\<forall>cmds\<in>set bufs. filter is_draw_indexed cmds =
            [vkCmdDrawIndexed (word_of_nat (length (indices m)) * 3) 1 0 0 0]))"
    by blast
  then have "\<exists>bufs. build_command_buffers_baseline (use_deferred (the_scene p)) 1280 720
                     (instancing_dim (the_scene p)) [?m] 2 = Inr bufs \<and>
         length bufs = 2 \<and>
         (\<forall>cmds\<in>set bufs. filter is_draw_indexed cmds =
            [vkCmdDrawIndexed (word_of_nat (length (indices ?m)) * 3) 1 0 0 0])"
    by blast
  then have 3: "\<exists>bufs. build_command_buffers_baseline (use_deferred (the_scene p)) 1280 720
                    (instancing_dim (the_scene p)) [?m] 2 = Inr bufs \<and>
                length bufs = 2 \<and>
                list_all (\<lambda>cmds. filter is_draw_indexed cmds = [vkCmdDrawIndexed 3 1 0 0 0]) bufs"
    by (simp add: list_all_iff)
  from 1 p 2 3 show ?thesis by blast
qed

subsection \<open>The instancing lattice\<close>

text \<open>
  The three loops fill the vector from the index they start at, in the order of
  \<^const>\<open>lattice\<close>, when the rest of the vector has room for what they write.
\<close>

lemma z_loop_ok:
  "length zs \<le> length rest \<Longrightarrow>
   z_loop ops c iv x y zs (pre @ rest, length pre)
     = Inr (pre @ map (pos_offset ops c iv x y) zs @ drop (length zs) rest,
            length pre + length zs)"
proof (induction zs arbitrary: pre rest)
  case Nil
  then show ?case by simp
next
  case (Cons z zs)
  from Cons.prems obtain r rest' where r: "rest = r # rest'" by (cases rest) auto
  with Cons.prems have "length zs \<le> length rest'" by simp
  from Cons.IH [OF this, of "pre @ [pos_offset ops c iv x y z]"] show ?case
    by (simp add: store_def r)
qed

lemma length_rows:
  "length (concat (map (\<lambda>y. map (g y) zs) ys)) = length ys * length zs"
  by (induction ys) simp_all

lemma y_loop_ok:
  "length ys * length zs \<le> length rest \<Longrightarrow>
   y_loop ops c iv x ys zs (pre @ rest, length pre)
     = Inr (pre @ concat (map (\<lambda>y. map (pos_offset ops c iv x y) zs) ys)
              @ drop (length ys * length zs) rest,
            length pre + length ys * length zs)"
proof (induction ys arbitrary: pre rest)
  case Nil
  then show ?case by simp
next
  case (Cons y ys)
  let ?row = "map (pos_offset ops c iv x y) zs"
  from Cons.prems have l: "length zs \<le> length rest" by simp
  have 1: "z_loop ops c iv x y zs (pre @ rest, length pre)
           = Inr ((pre @ ?row) @ drop (length zs) rest, length (pre @ ?row))"
    using z_loop_ok [OF l] by simp
  from Cons.prems have "length ys * length zs \<le> length (drop (length zs) rest)" by simp
  from Cons.IH [OF this, of "pre @ ?row"] show ?case
    by (simp add: 1 add.commute add.left_commute)
qed

lemma x_loop_ok:
  "length xs * (length ys * length zs) \<le> length rest \<Longrightarrow>
   x_loop ops c iv xs ys zs (pre @ rest, length pre)
     = Inr (pre @ lattice ops c iv xs ys zs @ drop (length xs * (length ys * length zs)) rest,
            length pre + length xs * (length ys * length zs))"
proof (induction xs arbitrary: pre rest)
  case Nil
  then show ?case by (simp add: lattice_def)
next
  case (Cons x xs)
  let ?plane = "concat (map (\<lambda>y. map (pos_offset ops c iv x y) zs) ys)"
  have lp: "length ?plane = length ys * length zs" by (rule length_rows)
  from Cons.prems have l: "length ys * length zs \<le> length rest" by simp
  have 1: "y_loop ops c iv x ys zs (pre @ rest, length pre)
           = Inr ((pre @ ?plane) @ drop (length ys * length zs) rest, length (pre @ ?plane))"
    using y_loop_ok [OF l] by (simp add: lp)
  from Cons.prems have
    "length xs * (length ys * length zs) \<le> length (drop (length ys * length zs) rest)"
    by simp
  from Cons.IH [OF this, of "pre @ ?plane"] show ?case
    by (simp add: 1 lp lattice_def add.commute add.left_commute)
qed

lemma length_lattice:
  "length (lattice ops c iv xs ys zs) = length xs * (length ys * length zs)"
proof -
  show ?thesis
    unfolding lattice_def by (induction xs) (simp_all add: length_rows)
qed

lemma nth_concat_uniform:
  assumes "\<forall>k<n. length (f k) = m" "i < n" "j < m"
  shows "concat (map f [0..<n]) ! (i * m + j) = f i ! j"
  using assms
proof (induction n)
  case 0
  then show ?case by simp
next
  case (Suc n)
  from Suc.prems(1) have len: "length (concat (map f [0..<n])) = n * m"
    by (induction n) simp_all
  show ?case
  proof (cases "i < n")
    case True
    then have "Suc i \<le> n" by simp
    then have "Suc i * m \<le> n * m" by (rule mult_le_mono1)
    with Suc.prems(3) have "i * m + j < n * m" by simp
    with Suc.IH True Suc.prems len show ?thesis
      by (simp add: nth_append)
  next
    case False
    with Suc.prems(2) have "i = n" by simp
    with len show ?thesis by (simp add: nth_append)
  qed
qed

lemma length_int_range: "length (int_range n) = nat n"
  by (simp add: int_range_def)

lemma lattice_nth:
  assumes "0 \<le> x" "x < dx" "0 \<le> y" "y < dy" "0 \<le> z" "z < dz"
  shows "lattice ops c iv (int_range dx) (int_range dy) (int_range dz) ! nat ((x * dy + y) * dz + z)
         = pos_offset ops c iv x y z"
proof -
  let ?row = "\<lambda>x y. map (pos_offset ops c iv x y) (int_range dz)"
  let ?plane = "\<lambda>x. concat (map (?row x) (int_range dy))"
  let ?g = "\<lambda>i. ?plane (int i)"
  have pl: "\<And>i. ?g i = concat (map (\<lambda>j. ?row (int i) (int j)) [0..<nat dy])"
    by (simp add: int_range_def comp_def)
  have lp: "\<forall>k<nat dx. length (?g k) = nat dy * nat dz"
    unfolding pl by (simp add: length_rows length_int_range)
  have lat: "lattice ops c iv (int_range dx) (int_range dy) (int_range dz)
             = concat (map ?g [0..<nat dx])"
    by (simp add: lattice_def int_range_def comp_def)
  have idx: "nat ((x * dy + y) * dz + z) = nat x * (nat dy * nat dz) + (nat y * nat dz + nat z)"
    using assms by (simp add: nat_add_distrib nat_mult_distrib algebra_simps)
  have "Suc (nat y) \<le> nat dy" using assms by simp
  then have "Suc (nat y) * nat dz \<le> nat dy * nat dz" by (rule mult_le_mono1)
  then have "nat y * nat dz + nat dz \<le> nat dy * nat dz" by simp
  moreover from assms have "nat z < nat dz" by simp
  ultimately have b: "nat y * nat dz + nat z < nat dy * nat dz" by linarith
  have "concat (map ?g [0..<nat dx]) ! (nat x * (nat dy * nat dz) + (nat y * nat dz + nat z))
        = ?g (nat x) ! (nat y * nat dz + nat z)"
    using assms by (intro nth_concat_uniform lp b) simp
  also have "\<dots> = ?row x (int (nat y)) ! nat z"
    unfolding pl using assms
    by (subst nth_concat_uniform) (simp_all add: length_int_range)
  also have "\<dots> = pos_offset ops c iv x y z"
    using assms by (simp add: int_range_def)
  finally show ?thesis by (simp add: lat idx)
qed

lemma prepare_instance_data_ok:
  assumes "1 \<le> dx" "1 \<le> dy" "1 \<le> dz" "dx * dy * dz \<le> INT_MAX"
  shows "prepare_instance_data ops (dx, dy, dz) iv
         = Inr (lattice ops (corner ops (dx, dy, dz) iv) iv (int_range dx) (int_range dy) (int_range dz))"
proof -
  obtain ix iy iz where iv: "iv = (ix, iy, iz)" by (cases iv) auto
  have ls: "lattice_size (dx, dy, dz) = Inr (dx * dy * dz)"
    using assms by (rule lattice_size_valid)
  from assms(1,2) have "1 * 1 \<le> dx * dy" by (intro mult_mono) simp_all
  then have p: "1 \<le> dx * dy" by simp
  from assms(2,3) have "1 * 1 \<le> dy * dz" by (intro mult_mono) simp_all
  then have q: "1 \<le> dy * dz" by simp
  from assms(1,3) have "1 * 1 \<le> dx * dz" by (intro mult_mono) simp_all
  then have r: "1 \<le> dx * dz" by simp
  from assms(1) q have "dx * 1 \<le> dx * (dy * dz)" by (intro mult_left_mono) simp_all
  then have b1: "dx \<le> dx * dy * dz" by (simp add: mult.assoc)
  from assms(2) r have "dy * 1 \<le> dy * (dx * dz)" by (intro mult_left_mono) simp_all
  then have b2: "dy \<le> dx * dy * dz" by (simp add: mult.left_commute mult.assoc)
  from assms(3) p have "1 * dz \<le> (dx * dy) * dz" by (intro mult_right_mono) simp_all
  then have b3: "dz \<le> dx * dy * dz" by simp
  note b = b1 b2 b3
  from b1 assms(4) have "dx - 1 \<le> INT_MAX" by linarith
  moreover from b2 assms(4) have "dy - 1 \<le> INT_MAX" by linarith
  moreover from b3 assms(4) have "dz - 1 \<le> INT_MAX" by linarith
  ultimately have c: "checked_int (dx - 1) = Inr (dx - 1)" "checked_int (dy - 1) = Inr (dy - 1)"
    "checked_int (dz - 1) = Inr (dz - 1)"
    using assms(1-3) by (simp_all add: checked_int_def INT_MIN_def)
  have n: "nat (dx * dy * dz) = nat dx * (nat dy * nat dz)"
    using assms by (simp add: nat_mult_distrib mult.assoc)
  let ?c = "corner ops (dx, dy, dz) iv"
  have "x_loop ops ?c iv (int_range dx) (int_range dy) (int_range dz)
          ([] @ replicate (nat (dx * dy * dz)) (0, 0, 0), 0)
        = Inr ([] @ lattice ops ?c iv (int_range dx) (int_range dy) (int_range dz)
                 @ drop (length (int_range dx) * (length (int_range dy) * length (int_range dz)))
                     (replicate (nat (dx * dy * dz)) (0, 0, 0)),
               length ([]::'a vec3 list)
                 + length (int_range dx) * (length (int_range dy) * length (int_range dz)))"
    using x_loop_ok [of "int_range dx" "int_range dy" "int_range dz"
        "replicate (nat (dx * dy * dz)) (0, 0, 0)" ops ?c iv "[]"]
    by (simp add: length_int_range n)
  then have x: "x_loop ops ?c iv (int_range dx) (int_range dy) (int_range dz)
          (replicate (nat (dx * dy * dz)) (0, 0, 0), 0)
        = Inr (lattice ops ?c iv (int_range dx) (int_range dy) (int_range dz),
               nat dx * (nat dy * nat dz))"
    by (simp add: length_int_range n)
  from assms have nn: "\<not> dx * dy * dz < 0"
    using b(1) by linarith
  show ?thesis
    unfolding prepare_instance_data_def iv
    using x by (simp add: ls c nn Let_def corner_def iv)
qed


lemma set_int_range: "set (int_range n) = {x. 0 \<le> x \<and> x < n}"
proof -
  have "\<And>x. 0 \<le> x \<Longrightarrow> x < n \<Longrightarrow> x \<in> int ` {0..<nat n}"
  proof -
    fix x :: int
    assume "0 \<le> x" "x < n"
    then have "nat x \<in> {0..<nat n}" "x = int (nat x)" by simp_all
    then show "x \<in> int ` {0..<nat n}" by (rule_tac image_eqI)
  qed
  then show ?thesis by (auto simp: int_range_def)
qed

lemma lattice_mem:
  "p \<in> set (lattice ops c iv xs ys zs)
     \<longleftrightarrow> (\<exists>x\<in>set xs. \<exists>y\<in>set ys. \<exists>z\<in>set zs. p = pos_offset ops c iv x y z)"
  by (auto simp: lattice_def)

lemma exact_negation:
  "vneg exact_ops (pos_offset exact_ops (corner exact_ops (nx, ny, nz) iv) iv x y z)
   = pos_offset exact_ops (corner exact_ops (nx, ny, nz) iv) iv (nx - 1 - x) (ny - 1 - y) (nz - 1 - z)"
proof -
  obtain ix iy iz where iv: "iv = (ix, iy, iz)" by (cases iv) auto
  show ?thesis
    by (simp add: iv vneg_def pos_offset_def corner_def exact_ops_def algebra_simps)
qed

lemma exact_symmetric:
  assumes "p \<in> set (lattice exact_ops (corner exact_ops (nx, ny, nz) iv) iv
                     (int_range nx) (int_range ny) (int_range nz))"
  shows "vneg exact_ops p \<in> set (lattice exact_ops (corner exact_ops (nx, ny, nz) iv) iv
                     (int_range nx) (int_range ny) (int_range nz))"
proof -
  let ?c = "corner exact_ops (nx, ny, nz) iv"
  from assms obtain x y z where
    r: "0 \<le> x" "x < nx" "0 \<le> y" "y < ny" "0 \<le> z" "z < nz" and
    p: "p = pos_offset exact_ops ?c iv x y z"
    by (auto simp: lattice_mem set_int_range)
  have "vneg exact_ops p = pos_offset exact_ops ?c iv (nx - 1 - x) (ny - 1 - y) (nz - 1 - z)"
    unfolding p by (rule exact_negation)
  moreover from r have "nx - 1 - x \<in> set (int_range nx)" "ny - 1 - y \<in> set (int_range ny)"
    "nz - 1 - z \<in> set (int_range nz)"
    by (simp_all add: set_int_range)
  ultimately show ?thesis
    unfolding lattice_mem by blast
qed


text \<open>
  The product of the dimensions is computed as an \<^verbatim>\<open>int\<close>: \<open>65536 * 65536\<close> is not one.
\<close>

lemma product_overflow:
  "prepare_instance_data ops (65536, 65536, 1) interval = Inl IntOverflow"
proof -
  obtain ix iy iz where "interval = (ix, iy, iz)" by (cases interval) auto
  then show ?thesis
    by (simp add: prepare_instance_data_def lattice_size_def checked_int_def INT_MAX_def
        INT_MIN_def)
qed

subsection \<open>Rounding to single precision\<close>

text \<open>
  The rounding of \<^const>\<open>binary32_round\<close> is to a nearest value of the format: the result
  is a multiple of \<open>2 ^ e\<close> with a significand of 24 bits, for the exponent \<open>e\<close> of the
  argument, at most half of \<open>2 ^ e\<close> away from it; a value of the format is its own
  rounding; and the error is at most \<open>2 ^ - 24\<close> of the argument, or \<open>2 ^ - 150\<close> near
  zero.
\<close>

lemma pow2_pos: "0 < pow2 e"
  by (simp add: pow2_def)

lemma pow2_Suc: "pow2 (e + 1) = 2 * pow2 e"
proof (cases "0 \<le> e")
  case True
  then show ?thesis by (simp add: pow2_def nat_add_distrib)
next
  case False
  then have "nat (- e) = Suc (nat (- (e + 1)))" by simp
  with False show ?thesis by (simp add: pow2_def)
qed

lemma ulp_search_spec:
  "e \<le> 104 \<Longrightarrow> p = pow2 (e + 24) \<Longrightarrow>
   e \<le> ulp_search a p e \<and> ulp_search a p e \<le> 104 \<and>
   (ulp_search a p e < 104 \<longrightarrow> a < pow2 (ulp_search a p e + 24)) \<and>
   (e < ulp_search a p e \<longrightarrow> pow2 (ulp_search a p e + 23) \<le> a)"
proof (induction a p e rule: ulp_search.induct)
  case (1 a p e)
  show ?case
  proof (cases "a < p \<or> 104 \<le> e")
    case True
    with "1.prems" show ?thesis by (subst (1 2 3 4 5 6) ulp_search.simps) auto
  next
    case False
    then have s: "ulp_search a p e = ulp_search a (2 * p) (e + 1)"
      by (subst ulp_search.simps) simp
    from False "1.prems" have "e + 1 \<le> 104" "2 * p = pow2 (e + 1 + 24)"
      using pow2_Suc [of "e + 24"] by (simp_all add: add.commute add.left_commute)
    from "1.IH" [OF False this] have
      i: "e + 1 \<le> ulp_search a (2 * p) (e + 1)" "ulp_search a (2 * p) (e + 1) \<le> 104"
        "ulp_search a (2 * p) (e + 1) < 104 \<longrightarrow> a < pow2 (ulp_search a (2 * p) (e + 1) + 24)"
        "e + 1 < ulp_search a (2 * p) (e + 1) \<longrightarrow> pow2 (ulp_search a (2 * p) (e + 1) + 23) \<le> a"
      by simp_all
    have "pow2 (ulp_search a (2 * p) (e + 1) + 23) \<le> a"
    proof (cases "e + 1 < ulp_search a (2 * p) (e + 1)")
      case True
      with i(4) show ?thesis by simp
    next
      case False
      with i(1) have "ulp_search a (2 * p) (e + 1) + 23 = e + 24" by simp
      moreover from \<open>\<not> (a < p \<or> 104 \<le> e)\<close> "1.prems"(2) have "pow2 (e + 24) \<le> a"
        by (simp add: not_less)
      ultimately show ?thesis by (simp only:)
    qed
    with i show ?thesis
      unfolding s by simp
  qed
qed

lemma round_half_even_error: "\<bar>of_int (round_half_even q) - q\<bar> \<le> 1 / 2"
proof -
  define f where "f = \<lfloor>q\<rfloor>"
  define r where "r = q - of_int f"
  have r: "0 \<le> r" "r < 1" unfolding r_def f_def by linarith+
  have q: "q = of_int f + r" by (simp add: r_def)
  have "round_half_even q
          = (if r < 1 / 2 then f else if 1 / 2 < r then f + 1 else if even f then f else f + 1)"
    by (simp add: round_half_even_def Let_def f_def r_def)
  with r show ?thesis
    unfolding q by (auto simp: abs_if)
qed

lemma binary32_round_error:
  "\<bar>binary32_round q - q\<bar> \<le> pow2 (ulp_exponent q) / 2"
proof -
  let ?e = "ulp_exponent q"
  have "binary32_round q - q = (of_int (round_half_even (q / pow2 ?e)) - q / pow2 ?e) * pow2 ?e"
    using pow2_pos [of ?e] by (simp add: binary32_round_def Let_def left_diff_distrib)
  then have "\<bar>binary32_round q - q\<bar>
          = \<bar>of_int (round_half_even (q / pow2 ?e)) - q / pow2 ?e\<bar> * pow2 ?e"
    using pow2_pos [of ?e] by (simp add: abs_mult)
  also have "\<dots> \<le> 1 / 2 * pow2 ?e"
    using pow2_pos [of ?e] round_half_even_error [of "q / pow2 ?e"]
    by (intro mult_right_mono) simp_all
  finally show ?thesis by simp
qed


lemma pow2_powi: "pow2 e = 2 powi e"
  by (simp add: pow2_def power_int_def field_simps)

lemma pow2_add: "pow2 (a + b) = pow2 a * pow2 b"
  by (simp add: pow2_powi power_int_add)

lemma ulp_exponent_range:
  "- 149 \<le> ulp_exponent q \<and> ulp_exponent q \<le> 104 \<and>
   (\<bar>q\<bar> < pow2 128 \<longrightarrow> \<bar>q\<bar> < pow2 (ulp_exponent q + 24)) \<and>
   (- 149 < ulp_exponent q \<longrightarrow> pow2 (ulp_exponent q + 23) \<le> \<bar>q\<bar>)"
proof -
  have "(- 149::int) \<le> 104" "pow2 (- 125) = pow2 (- 149 + 24)" by simp_all
  from ulp_search_spec [OF this, of "\<bar>q\<bar>"] have
    s: "- 149 \<le> ulp_exponent q" "ulp_exponent q \<le> 104"
      "ulp_exponent q < 104 \<longrightarrow> \<bar>q\<bar> < pow2 (ulp_exponent q + 24)"
      "- 149 < ulp_exponent q \<longrightarrow> pow2 (ulp_exponent q + 23) \<le> \<bar>q\<bar>"
    by (simp_all add: ulp_exponent_def)
  have "\<bar>q\<bar> < pow2 128 \<longrightarrow> \<bar>q\<bar> < pow2 (ulp_exponent q + 24)"
  proof (cases "ulp_exponent q < 104")
    case True
    with s(3) show ?thesis by simp
  next
    case False
    with s(2) have "ulp_exponent q + 24 = 128" by simp
    then show ?thesis by (simp only:) simp
  qed
  with s show ?thesis by simp
qed

lemma binary32_round_representable:
  assumes "\<bar>q\<bar> < pow2 128"
  shows "\<exists>m. binary32_round q = of_int m * pow2 (ulp_exponent q) \<and> \<bar>m\<bar> \<le> 2 ^ 24"
proof -
  let ?e = "ulp_exponent q"
  let ?x = "q / pow2 ?e"
  from assms ulp_exponent_range [of q] have "\<bar>q\<bar> < pow2 (?e + 24)" by simp
  also have "\<dots> = pow2 24 * pow2 ?e" by (simp only: pow2_add mult.commute)
  also have "pow2 24 = 2 ^ 24" by (simp add: pow2_def)
  finally have "\<bar>q\<bar> / pow2 ?e < 2 ^ 24"
    using pow2_pos [of ?e] by (simp only: pos_divide_less_eq)
  moreover have "\<bar>?x\<bar> = \<bar>q\<bar> / pow2 ?e"
    using pow2_pos [of ?e] by simp
  ultimately have "\<bar>?x\<bar> < 2 ^ 24" by (simp only:)
  with round_half_even_error [of ?x]
  have "\<bar>rat_of_int (round_half_even ?x)\<bar> < 2 ^ 24 + 1" by linarith
  then have "rat_of_int \<bar>round_half_even ?x\<bar> < rat_of_int (2 ^ 24 + 1)" by simp
  then have "\<bar>round_half_even ?x\<bar> < 2 ^ 24 + 1" by (simp only: of_int_less_iff)
  then have "\<bar>round_half_even ?x\<bar> \<le> 2 ^ 24" by simp
  then show ?thesis
    by (intro exI [of _ "round_half_even ?x"]) (simp add: binary32_round_def Let_def)
qed

lemma pow2_ge_1: "0 \<le> e \<Longrightarrow> 1 \<le> pow2 e"
  by (simp add: pow2_def)

lemma pow2_mono: "a \<le> b \<Longrightarrow> pow2 a \<le> pow2 b"
proof -
  assume "a \<le> b"
  then have "1 \<le> pow2 (b - a)" by (simp add: pow2_ge_1)
  moreover have "pow2 b = pow2 a * pow2 (b - a)"
    using pow2_add [of a "b - a"] by simp
  ultimately show ?thesis
    using pow2_pos [of a] by simp
qed

lemma pow2_less_imp: "pow2 a < pow2 b \<Longrightarrow> a < b"
  using pow2_mono [of b a] by (cases "a < b") simp_all

lemma pow2_nat: "0 \<le> e \<Longrightarrow> pow2 e = of_int (2 ^ nat e)"
  by (simp add: pow2_def)

lemma round_half_even_of_int: "round_half_even (of_int z) = z"
  by (simp add: round_half_even_def)

lemma binary32_round_exact:
  assumes "\<bar>m\<bar> < 2 ^ 24" "- 149 \<le> k"
  shows "binary32_round (of_int m * pow2 k) = of_int m * pow2 k"
proof -
  let ?q = "of_int m * pow2 k :: rat"
  let ?e = "ulp_exponent ?q"
  have le: "?e \<le> k"
  proof (cases "- 149 < ?e")
    case True
    with ulp_exponent_range [of ?q] have "pow2 (?e + 23) \<le> \<bar>?q\<bar>" by simp
    also have "\<bar>?q\<bar> = of_int \<bar>m\<bar> * pow2 k"
      using pow2_pos [of k] by (simp add: abs_mult)
    also have "\<dots> < of_int (2 ^ 24) * pow2 k"
      using assms(1) pow2_pos [of k] by (intro mult_strict_right_mono) (simp_all only: of_int_less_iff)
    also have "\<dots> = pow2 (k + 24)"
    proof -
      have "pow2 24 = of_int (2 ^ 24)" by (simp add: pow2_def)
      then show ?thesis by (simp only: pow2_add mult.commute)
    qed
    finally have "?e + 23 < k + 24" by (rule pow2_less_imp)
    then show ?thesis by simp
  next
    case False
    with ulp_exponent_range [of ?q] have "?e = - 149" by simp
    with assms(2) show ?thesis by simp
  qed
  define e where "e = ?e"
  define c :: int where "c = 2 ^ nat (k - e)"
  from le have "pow2 (k - e) = of_int c"
    by (simp add: pow2_nat e_def c_def)
  with pow2_add [of "k - e" e] have k: "pow2 k = of_int c * pow2 e" by simp
  have "of_int m * (of_int c * pow2 e) / pow2 e = (of_int (m * c) :: rat)"
    using pow2_pos [of e] by simp
  then have "round_half_even (of_int m * (of_int c * pow2 e) / pow2 e) = m * c"
    by (simp only: round_half_even_of_int)
  then have "of_int (round_half_even (of_int m * (of_int c * pow2 e) / pow2 e)) * pow2 e
             = of_int m * (of_int c * pow2 e)"
    by simp
  then have "of_int (round_half_even (?q / pow2 e)) * pow2 e = ?q"
    by (simp only: k)
  then show ?thesis
    by (simp add: binary32_round_def Let_def e_def)
qed


lemma ulp_exponent_upper:
  "ulp_exponent q < 104 \<Longrightarrow> \<bar>q\<bar> < pow2 (ulp_exponent q + 24)"
proof -
  have "(- 149::int) \<le> 104" "pow2 (- 125) = pow2 (- 149 + 24)" by simp_all
  from ulp_search_spec [OF this, of "\<bar>q\<bar>"]
  show "ulp_exponent q < 104 \<Longrightarrow> \<bar>q\<bar> < pow2 (ulp_exponent q + 24)"
    by (simp add: ulp_exponent_def)
qed

lemma binary32_round_relative:
  assumes "- 149 < ulp_exponent q"
  shows "\<bar>binary32_round q - q\<bar> \<le> \<bar>q\<bar> / 2 ^ 24"
proof -
  let ?e = "ulp_exponent q"
  from assms ulp_exponent_range [of q] have "pow2 (?e + 23) \<le> \<bar>q\<bar>" by simp
  moreover have "pow2 (?e + 23) = pow2 ?e * 2 ^ 23"
  proof -
    have "pow2 23 = 2 ^ 23" by (simp add: pow2_def)
    then show ?thesis by (simp only: pow2_add)
  qed
  ultimately have "pow2 ?e / 2 \<le> \<bar>q\<bar> / 2 ^ 24" by simp
  with binary32_round_error [of q] show ?thesis by simp
qed

lemma binary32_round_bound:
  "\<bar>binary32_round q - q\<bar> \<le> \<bar>q\<bar> / 2 ^ 24 + 1 / 2 ^ 150"
proof (cases "- 149 < ulp_exponent q")
  case True
  from binary32_round_relative [OF this] show ?thesis by simp
next
  case False
  with ulp_exponent_range [of q] have "ulp_exponent q = - 149" by simp
  with binary32_round_error [of q] have "\<bar>binary32_round q - q\<bar> \<le> 1 / 2 ^ 150"
    by (simp add: pow2_def)
  moreover have "0 \<le> \<bar>q\<bar> / 2 ^ 24" by simp
  ultimately show ?thesis by linarith
qed

lemma binary32_round_0: "binary32_round 0 = 0"
  by (simp add: binary32_round_def Let_def round_half_even_def)

lemma binary32_round_int_bound:
  "\<bar>binary32_round (of_int j) - of_int j\<bar> \<le> \<bar>of_int j\<bar> / 2 ^ 24"
proof (cases "j = 0")
  case True
  then show ?thesis by (simp add: binary32_round_0)
next
  case False
  then have "1 \<le> \<bar>j\<bar>" by simp
  then have "rat_of_int 1 \<le> rat_of_int \<bar>j\<bar>" by (simp only: of_int_le_iff)
  then have one: "1 \<le> \<bar>rat_of_int j\<bar>" by simp
  have "- 149 < ulp_exponent (of_int j)"
  proof (rule ccontr)
    assume "\<not> - 149 < ulp_exponent (rat_of_int j)"
    with ulp_exponent_range [of "of_int j"] have e: "ulp_exponent (rat_of_int j) = - 149" by simp
    with ulp_exponent_upper [of "of_int j"] have "\<bar>rat_of_int j\<bar> < pow2 (- 125)" by simp
    also have "pow2 (- 125) < 1" by (simp add: pow2_def)
    finally show False using one by simp
  qed
  then show ?thesis by (rule binary32_round_relative)
qed


text \<open>The values that the example below rounds.\<close>

lemma floor_rat_numeral:
  "\<lfloor>numeral a / numeral b :: rat\<rfloor> = numeral a div numeral b"
  using floor_divide_of_int_eq [of "numeral a" "numeral b", where ?'a = rat] by simp

lemma floor_rat_neg_numeral:
  "\<lfloor>- (numeral a / numeral b) :: rat\<rfloor> = - numeral a div numeral b"
  using floor_divide_of_int_eq [of "- numeral a" "numeral b", where ?'a = rat] by simp

lemmas round_defs = floor_rat_numeral floor_rat_neg_numeral binary32_round_def ulp_exponent_def ulp_search.simps pow2_def
  round_half_even_def Let_def


lemma binary32_round_values:
  "binary32_round 0 = 0"
  "binary32_round 1 = 1"
  "binary32_round 2 = 2"
  "binary32_round 3 = 3"
  "binary32_round (1 / 2) = 1 / 2"
  "binary32_round (1 / 10) = 13421773 / 134217728"
  "binary32_round (- (13421773 / 268435456)) = - (13421773 / 268435456)"
  "binary32_round (- (40265319 / 268435456)) = - (5033165 / 33554432)"
  "binary32_round (13421773 / 134217728) = 13421773 / 134217728"
  "binary32_round (13421773 / 67108864) = 13421773 / 67108864"
  "binary32_round (40265319 / 134217728) = 5033165 / 16777216"
  "binary32_round (- (5033165 / 33554432)) = - (5033165 / 33554432)"
  "binary32_round (- (6710887 / 134217728)) = - (6710887 / 134217728)"
  "binary32_round (3355443 / 67108864) = 3355443 / 67108864"
  "binary32_round (5033165 / 33554432) = 5033165 / 33554432"
  by (simp_all add: round_defs)


text \<open>
  A dimension of \<open>2147483647\<close> becomes \<open>2147483648.0f\<close> in the \<^verbatim>\<open>glm::vec3\<close> of line 351,
  which is no \<^verbatim>\<open>int\<close>: the conversion gives a negative dimension, and line 369 ends the
  program.
\<close>

lemma binary32_round_large: "binary32_round 2147483647 = 2147483648"
  by (simp add: round_defs)

lemma large_dim_rejected:
  "check_instancing binary32_ops (2147483647, 1, 1) (2, 2, 2) = Inl (Exit 1)"
  by (simp add: check_instancing_def binary32_ops_def Let_def INT_MIN_def INT_MAX_def
      binary32_round_large binary32_round_values)

subsection \<open>The lattice in single precision\<close>

text \<open>
  When no operation rounds, the offsets are those of exact arithmetic, which are
  symmetric. In general the offset of a coordinate is within 7 rounding errors of its exact
  value, and the exact values of mirrored coordinates add up to zero.
\<close>

lemma binary32_axis:
  assumes u: "unrounded m e n" and x: "0 \<le> x" "x < n"
  shows "binary32_round
           (binary32_round (binary32_round (- (of_int m * pow2 e) * binary32_round (1 / 2))
              * binary32_round (of_int (n - 1)))
            + binary32_round (of_int m * pow2 e * binary32_round (of_int x)))
         = - (of_int m * pow2 e) * (1 / 2) * of_int (n - 1) + of_int m * pow2 e * of_int x"
proof -
  from u have m: "1 \<le> m" "m * n < 2 ^ 24" and e: "- 148 \<le> e"
    by (simp_all add: unrounded_def)
  from x have n: "1 \<le> n" by simp
  have b: "\<And>j. 0 \<le> j \<Longrightarrow> j \<le> n \<Longrightarrow> m * j < 2 ^ 24"
  proof -
    fix j :: int
    assume "0 \<le> j" "j \<le> n"
    with m(1) have "m * j \<le> m * n" by (intro mult_left_mono) simp_all
    with m(2) show "m * j < 2 ^ 24" by simp
  qed
  from m(1) n have "1 * n \<le> m * n" by (intro mult_right_mono) simp_all
  with m(2) have n24: "n < 2 ^ 24" by simp
  from b [of 1] n have m24: "m < 2 ^ 24" by simp
  have half: "pow2 e = 2 * pow2 (e - 1)"
    using pow2_Suc [of "e - 1"] by simp
  have 1: "binary32_round (1 / 2) = 1 / 2"
    using binary32_round_exact [of 1 "- 1"] by (simp add: pow2_def)
  have "- (of_int m * pow2 e) * (1 / 2) = of_int (- m) * pow2 (e - 1)"
    by (simp add: half)
  moreover have "binary32_round (of_int (- m) * pow2 (e - 1)) = of_int (- m) * pow2 (e - 1)"
    using m(1) m24 e by (intro binary32_round_exact) simp_all
  ultimately have 2: "binary32_round (- (of_int m * pow2 e) * (1 / 2)) = of_int (- m) * pow2 (e - 1)"
    by (simp only:)
  have 3: "binary32_round (of_int (n - 1)) = of_int (n - 1)"
    using binary32_round_exact [of "n - 1" 0] n n24 by (simp add: pow2_def)
  have "of_int (- m) * pow2 (e - 1) * of_int (n - 1) = of_int (- (m * (n - 1))) * pow2 (e - 1)"
    by simp
  moreover have "binary32_round (of_int (- (m * (n - 1))) * pow2 (e - 1))
                 = of_int (- (m * (n - 1))) * pow2 (e - 1)"
  proof (intro binary32_round_exact)
    from m(1) n have "0 \<le> m * (n - 1)" by simp
    with b [of "n - 1"] n show "\<bar>- (m * (n - 1))\<bar> < 2 ^ 24" by simp
    from e show "- 149 \<le> e - 1" by simp
  qed
  ultimately have 4: "binary32_round (of_int (- m) * pow2 (e - 1) * of_int (n - 1))
                      = of_int (- (m * (n - 1))) * pow2 (e - 1)"
    by (simp only:)
  have 5: "binary32_round (of_int x) = of_int x"
    using binary32_round_exact [of x 0] x n24 by (simp add: pow2_def)
  have "of_int m * pow2 e * of_int x = of_int (m * x) * pow2 e"
    by simp
  moreover have "binary32_round (of_int (m * x) * pow2 e) = of_int (m * x) * pow2 e"
  proof (intro binary32_round_exact)
    from m(1) x have "0 \<le> m * x" by simp
    with b [of x] x show "\<bar>m * x\<bar> < 2 ^ 24" by simp
    from e show "- 149 \<le> e" by simp
  qed
  ultimately have 6: "binary32_round (of_int m * pow2 e * of_int x) = of_int (m * x) * pow2 e"
    by (simp only:)
  have "of_int (- (m * (n - 1))) * pow2 (e - 1) + of_int (m * x) * pow2 e
        = of_int (m * (2 * x - (n - 1))) * pow2 (e - 1)"
    by (simp add: half algebra_simps)
  moreover have "binary32_round (of_int (m * (2 * x - (n - 1))) * pow2 (e - 1))
                 = of_int (m * (2 * x - (n - 1))) * pow2 (e - 1)"
  proof (intro binary32_round_exact)
    from x have "\<bar>2 * x - (n - 1)\<bar> \<le> n - 1" by simp
    with m(1) have "m * \<bar>2 * x - (n - 1)\<bar> \<le> m * (n - 1)"
      by (intro mult_left_mono) simp_all
    moreover from m(1) have "\<bar>m * (2 * x - (n - 1))\<bar> = m * \<bar>2 * x - (n - 1)\<bar>"
      by (simp add: abs_mult)
    ultimately show "\<bar>m * (2 * x - (n - 1))\<bar> < 2 ^ 24"
      using b [of "n - 1"] n by simp
    from e show "- 149 \<le> e - 1" by simp
  qed
  ultimately have 7: "binary32_round (of_int (- (m * (n - 1))) * pow2 (e - 1) + of_int (m * x) * pow2 e)
                      = of_int (m * (2 * x - (n - 1))) * pow2 (e - 1)"
    by (simp only:)
  have "- (of_int m * pow2 e) * (1 / 2) * of_int (n - 1) + of_int m * pow2 e * of_int x
        = of_int (m * (2 * x - (n - 1))) * pow2 (e - 1)"
    by (simp add: half algebra_simps)
  then show ?thesis
    by (simp only: 1 2 3 4 5 6 7)
qed


lemma binary32_offset_exact:
  assumes "unrounded mx ex nx" "unrounded my ey ny" "unrounded mz ez nz"
    and "0 \<le> x" "x < nx" "0 \<le> y" "y < ny" "0 \<le> z" "z < nz"
  shows "pos_offset binary32_ops
           (corner binary32_ops (nx, ny, nz)
              (of_int mx * pow2 ex, of_int my * pow2 ey, of_int mz * pow2 ez))
           (of_int mx * pow2 ex, of_int my * pow2 ey, of_int mz * pow2 ez) x y z
         = pos_offset exact_ops
           (corner exact_ops (nx, ny, nz)
              (of_int mx * pow2 ex, of_int my * pow2 ey, of_int mz * pow2 ez))
           (of_int mx * pow2 ex, of_int my * pow2 ey, of_int mz * pow2 ez) x y z"
  by (simp only: pos_offset_def corner_def binary32_ops_def exact_ops_def float_ops.select_convs
      prod.case binary32_axis [OF assms(1,4,5)] binary32_axis [OF assms(2,6,7)]
      binary32_axis [OF assms(3,8,9)])

lemma lattice_cong:
  assumes "\<And>x y z. x \<in> set xs \<Longrightarrow> y \<in> set ys \<Longrightarrow> z \<in> set zs \<Longrightarrow>
             pos_offset ops c iv x y z = pos_offset ops' c' iv' x y z"
  shows "lattice ops c iv xs ys zs = lattice ops' c' iv' xs ys zs"
  unfolding lattice_def
  by (intro arg_cong [where f = concat] map_cong refl) (simp add: assms)

lemma binary32_lattice_exact:
  assumes "unrounded mx ex nx" "unrounded my ey ny" "unrounded mz ez nz"
  shows "lattice binary32_ops
           (corner binary32_ops (nx, ny, nz)
              (of_int mx * pow2 ex, of_int my * pow2 ey, of_int mz * pow2 ez))
           (of_int mx * pow2 ex, of_int my * pow2 ey, of_int mz * pow2 ez)
           (int_range nx) (int_range ny) (int_range nz)
         = lattice exact_ops
           (corner exact_ops (nx, ny, nz)
              (of_int mx * pow2 ex, of_int my * pow2 ey, of_int mz * pow2 ez))
           (of_int mx * pow2 ex, of_int my * pow2 ey, of_int mz * pow2 ez)
           (int_range nx) (int_range ny) (int_range nz)"
  by (rule lattice_cong) (simp add: set_int_range binary32_offset_exact [OF assms])

lemma vneg_binary32: "vneg binary32_ops = vneg exact_ops"
  by (rule ext) (simp add: vneg_def binary32_ops_def exact_ops_def)

lemma abs_mult_le:
  fixes p q :: rat
  shows "\<bar>p\<bar> \<le> bp \<Longrightarrow> \<bar>q\<bar> \<le> bq \<Longrightarrow> \<bar>p * q\<bar> \<le> bp * bq"
  by (simp add: abs_mult mult_mono)

lemma binary32_axis_error:
  fixes i :: rat and n x :: int
  assumes x: "0 \<le> x" "x < n"
  shows "\<bar>binary32_round
            (binary32_round (binary32_round (- i * binary32_round (1 / 2))
               * binary32_round (of_int (n - 1)))
             + binary32_round (i * binary32_round (of_int x)))
          - (- i * (1 / 2) * of_int (n - 1) + i * of_int x)\<bar>
         \<le> 7 * (\<bar>i\<bar> * of_int n / 2 ^ 24 + of_int n / 2 ^ 150)"
proof -
  define u :: rat where "u = 1 / 2 ^ 24"
  define h0 :: rat where "h0 = 1 / 2 ^ 150"
  have u: "0 \<le> u" "u \<le> 1 / 16" by (simp_all add: u_def)
  have h0: "0 \<le> h0" by (simp add: h0_def)
  have R: "\<And>q. \<bar>binary32_round q - q\<bar> \<le> u * \<bar>q\<bar> + h0"
    using binary32_round_bound by (simp add: u_def h0_def)
  have RI: "\<And>j. \<bar>binary32_round (of_int j) - of_int j\<bar> \<le> u * \<bar>of_int j\<bar>"
    using binary32_round_int_bound by (simp add: u_def)
  have half: "binary32_round (1 / 2) = 1 / 2"
    using binary32_round_exact [of 1 "- 1"] by (simp add: pow2_def)
  define a where "a = \<bar>i\<bar>"
  define nn :: rat where "nn = of_int n"
  define N :: rat where "N = of_int (n - 1)"
  define X :: rat where "X = of_int x"
  define A where "A = a * nn"
  define S where "S = u * A"
  define H where "H = h0 * nn"
  have a: "0 \<le> a" by (simp add: a_def)
  from x have nn: "1 \<le> nn" and N: "0 \<le> N" "N \<le> nn" and X: "0 \<le> X" "X \<le> N"
    by (simp_all add: nn_def N_def X_def)
  from a nn have aA: "a \<le> A" unfolding A_def by (metis mult.right_neutral mult_left_mono)
  from a N have aN: "a * N \<le> A" "0 \<le> a * N" unfolding A_def by (simp_all add: mult_left_mono)
  from a X N have aX: "a * X \<le> A" "0 \<le> a * X" unfolding A_def by (simp_all add: mult_left_mono)
  from h0 nn have hH: "h0 \<le> H" unfolding H_def by (metis mult.right_neutral mult_left_mono)
  from h0 N have hN: "h0 * N \<le> H" unfolding H_def by (simp add: mult_left_mono)
  from a nn have A0: "0 \<le> A" unfolding A_def by simp
  from u A0 have S0: "0 \<le> S" unfolding S_def by simp
  from h0 nn have H0: "0 \<le> H" unfolding H_def by simp
  from u S0 have uS: "u * S \<le> S / 16" using mult_right_mono [of u "1 / 16" S] by simp
  from u H0 have uH: "u * H \<le> H / 16" using mult_right_mono [of u "1 / 16" H] by simp
  from u aN have uaN: "u * (a * N) \<le> S" unfolding S_def by (simp add: mult_left_mono)
  from u aX have uaX: "u * (a * X) \<le> S" unfolding S_def by (simp add: mult_left_mono)
  from u hN have uhN: "u * (h0 * N) \<le> u * H" by (simp add: mult_left_mono)

  define h where "h = binary32_round (- i * (1 / 2))"
  define e1 where "e1 = h - (- i * (1 / 2))"
  have "\<bar>- i * (1 / 2)\<bar> = a / 2" by (simp add: a_def)
  with R [of "- i * (1 / 2)"] have e1: "\<bar>e1\<bar> \<le> u * (a / 2) + h0"
    by (simp add: e1_def h_def)
  define d where "d = binary32_round N"
  define e2 where "e2 = d - N"
  from RI [of "n - 1"] N(1) have e2: "\<bar>e2\<bar> \<le> u * N"
    by (simp add: e2_def d_def N_def)
  have P: "h * d - (- i * (1 / 2) * N) = (- i * (1 / 2)) * e2 + e1 * N + e1 * e2"
    by (simp add: e1_def e2_def algebra_simps)
  have "\<bar>(- i * (1 / 2)) * e2\<bar> \<le> (a / 2) * (u * N)"
    using e2 by (intro abs_mult_le) (simp_all add: a_def)
  also have "\<dots> = u * (a * N) / 2" by simp
  finally have p1: "\<bar>(- i * (1 / 2)) * e2\<bar> \<le> S / 2" using uaN by simp
  have "\<bar>e1 * N\<bar> \<le> (u * (a / 2) + h0) * N"
    using e1 N(1) by (intro abs_mult_le) simp_all
  also have "\<dots> = u * (a * N) / 2 + h0 * N" by (simp add: algebra_simps)
  finally have p2: "\<bar>e1 * N\<bar> \<le> S / 2 + H" using uaN hN by simp
  have "\<bar>e1 * e2\<bar> \<le> (u * (a / 2) + h0) * (u * N)"
    using e1 e2 by (intro abs_mult_le)
  also have "\<dots> = u * (u * (a * N)) / 2 + u * (h0 * N)" by (simp add: algebra_simps)
  also have "\<dots> \<le> u * S / 2 + u * H"
    using mult_left_mono [OF uaN u(1)] uhN by simp
  finally have p3: "\<bar>e1 * e2\<bar> \<le> S / 32 + H / 16" using uS uH by simp
  from P p1 p2 p3 have PP: "\<bar>h * d - (- i * (1 / 2) * N)\<bar> \<le> 2 * S + 2 * H"
    using S0 H0 by linarith
  have "\<bar>- i * (1 / 2) * N\<bar> = a * N / 2"
    using N(1) by (simp add: a_def abs_mult)
  with aN have EN: "\<bar>- i * (1 / 2) * N\<bar> \<le> A / 2" by simp
  with PP have hd: "\<bar>h * d\<bar> \<le> A / 2 + 2 * S + 2 * H" by linarith
  define c where "c = binary32_round (h * d)"
  define e3 where "e3 = c - h * d"
  from R [of "h * d"] have "\<bar>e3\<bar> \<le> u * \<bar>h * d\<bar> + h0" by (simp add: e3_def c_def)
  also have "u * \<bar>h * d\<bar> \<le> u * (A / 2 + 2 * S + 2 * H)"
    using hd u(1) by (rule mult_left_mono)
  also have "\<dots> = S / 2 + 2 * (u * S) + 2 * (u * H)" by (simp add: S_def algebra_simps)
  finally have e3: "\<bar>e3\<bar> \<le> S + 2 * H" using uS uH hH S0 H0 by linarith
  from PP e3 have cc: "\<bar>c - (- i * (1 / 2) * N)\<bar> \<le> 3 * S + 4 * H"
    unfolding e3_def by linarith

  define k where "k = binary32_round X"
  define e4 where "e4 = k - X"
  from RI [of x] X(1) have e4: "\<bar>e4\<bar> \<le> u * X" by (simp add: e4_def k_def X_def)
  have "\<bar>i * e4\<bar> \<le> a * (u * X)"
    using e4 by (intro abs_mult_le) (simp_all add: a_def)
  also have "\<dots> = u * (a * X)" by simp
  finally have ie4: "\<bar>i * e4\<bar> \<le> S" using uaX by simp
  have ik: "i * k = i * X + i * e4" by (simp add: e4_def algebra_simps)
  have "\<bar>i * X\<bar> = a * X" using X(1) by (simp add: a_def abs_mult)
  with aX have iX: "\<bar>i * X\<bar> \<le> A" by simp
  with ik ie4 have ikb: "\<bar>i * k\<bar> \<le> A + S" by linarith
  define t where "t = binary32_round (i * k)"
  define e5 where "e5 = t - i * k"
  from R [of "i * k"] have "\<bar>e5\<bar> \<le> u * \<bar>i * k\<bar> + h0" by (simp add: e5_def t_def)
  also have "u * \<bar>i * k\<bar> \<le> u * (A + S)" using ikb u(1) by (rule mult_left_mono)
  also have "\<dots> = S + u * S" by (simp add: S_def algebra_simps)
  finally have e5: "\<bar>e5\<bar> \<le> S + S / 16 + H" using uS hH by linarith
  from ik ie4 e5 have tt: "\<bar>t - i * X\<bar> \<le> 3 * S + H"
    unfolding e5_def using S0 by linarith

  define E where "E = - i * (1 / 2) * N + i * X"
  have "E = i * (X - N / 2)" by (simp add: E_def algebra_simps)
  moreover from X N have "\<bar>X - N / 2\<bar> \<le> N / 2" by linarith
  ultimately have "\<bar>E\<bar> \<le> a * (N / 2)"
    by (simp only: abs_mult a_def) (intro mult_left_mono, simp_all)
  with aN have Eb: "\<bar>E\<bar> \<le> A / 2" by simp
  from cc tt have ct: "\<bar>c + t - E\<bar> \<le> 6 * S + 5 * H" unfolding E_def by linarith
  with Eb have ctb: "\<bar>c + t\<bar> \<le> A / 2 + 6 * S + 5 * H" by linarith
  define f where "f = binary32_round (c + t)"
  define e6 where "e6 = f - (c + t)"
  from R [of "c + t"] have "\<bar>e6\<bar> \<le> u * \<bar>c + t\<bar> + h0" by (simp add: e6_def f_def)
  also have "u * \<bar>c + t\<bar> \<le> u * (A / 2 + 6 * S + 5 * H)"
    using ctb u(1) by (rule mult_left_mono)
  also have "\<dots> = S / 2 + 6 * (u * S) + 5 * (u * H)" by (simp add: S_def algebra_simps)
  finally have e6: "\<bar>e6\<bar> \<le> S + 2 * H" using uS uH hH S0 H0 by linarith
  from ct e6 have "\<bar>f - E\<bar> \<le> 7 * S + 7 * H" unfolding e6_def by linarith
  moreover have "7 * S + 7 * H = 7 * (\<bar>i\<bar> * of_int n / 2 ^ 24 + of_int n / 2 ^ 150)"
    by (simp add: S_def H_def A_def a_def nn_def u_def h0_def)
  ultimately show ?thesis
    by (simp only: f_def c_def h_def d_def t_def k_def E_def N_def X_def half)
qed


lemma binary32_axis_mirror:
  fixes i :: rat and n x :: int
  assumes x: "0 \<le> x" "x < n"
  shows "\<bar>binary32_round
            (binary32_round (binary32_round (- i * binary32_round (1 / 2))
               * binary32_round (of_int (n - 1)))
             + binary32_round (i * binary32_round (of_int x)))
          + binary32_round
            (binary32_round (binary32_round (- i * binary32_round (1 / 2))
               * binary32_round (of_int (n - 1)))
             + binary32_round (i * binary32_round (of_int (n - 1 - x))))\<bar>
         \<le> rounding_bound i n"
proof -
  from x have x': "0 \<le> n - 1 - x" "n - 1 - x < n" by simp_all
  have "(- i * (1 / 2) * of_int (n - 1) + i * of_int x)
        + (- i * (1 / 2) * of_int (n - 1) + i * of_int (n - 1 - x)) = 0"
    by (simp add: algebra_simps)
  with binary32_axis_error [OF x, of i] binary32_axis_error [OF x', of i]
  show ?thesis
    unfolding rounding_bound_def by linarith
qed

lemma binary32_offset_mirror:
  assumes "0 \<le> x" "x < nx" "0 \<le> y" "y < ny" "0 \<le> z" "z < nz"
  shows "negation_within (rounding_bound ix nx, rounding_bound iy ny, rounding_bound iz nz)
           (pos_offset binary32_ops (corner binary32_ops (nx, ny, nz) (ix, iy, iz)) (ix, iy, iz)
              x y z)
           (pos_offset binary32_ops (corner binary32_ops (nx, ny, nz) (ix, iy, iz)) (ix, iy, iz)
              (nx - 1 - x) (ny - 1 - y) (nz - 1 - z))"
  using binary32_axis_mirror [OF assms(1,2), of ix] binary32_axis_mirror [OF assms(3,4), of iy]
    binary32_axis_mirror [OF assms(5,6), of iz]
  by (simp only: negation_within_def pos_offset_def corner_def binary32_ops_def
      float_ops.select_convs prod.case simp_thms)

lemma binary32_near_symmetric:
  assumes "p \<in> set (lattice binary32_ops (corner binary32_ops (nx, ny, nz) (ix, iy, iz)) (ix, iy, iz)
                     (int_range nx) (int_range ny) (int_range nz))"
  shows "\<exists>q\<in>set (lattice binary32_ops (corner binary32_ops (nx, ny, nz) (ix, iy, iz)) (ix, iy, iz)
                     (int_range nx) (int_range ny) (int_range nz)).
           negation_within (rounding_bound ix nx, rounding_bound iy ny, rounding_bound iz nz) p q"
proof -
  let ?c = "corner binary32_ops (nx, ny, nz) (ix, iy, iz)"
  from assms obtain x y z where
    r: "0 \<le> x" "x < nx" "0 \<le> y" "y < ny" "0 \<le> z" "z < nz" and
    p: "p = pos_offset binary32_ops ?c (ix, iy, iz) x y z"
    by (auto simp: lattice_mem set_int_range)
  from r have "nx - 1 - x \<in> set (int_range nx)" "ny - 1 - y \<in> set (int_range ny)"
    "nz - 1 - z \<in> set (int_range nz)"
    by (simp_all add: set_int_range)
  then have "pos_offset binary32_ops ?c (ix, iy, iz) (nx - 1 - x) (ny - 1 - y) (nz - 1 - z)
             \<in> set (lattice binary32_ops ?c (ix, iy, iz) (int_range nx) (int_range ny) (int_range nz))"
    unfolding lattice_mem by blast
  with binary32_offset_mirror [OF r, of ix iy iz] show ?thesis
    unfolding p by blast
qed

text \<open>
  Claim C3. For dimensions \<open>(nx, ny, nz)\<close> that are at least 1 and whose product is an
  \<^verbatim>\<open>int\<close>, and for every interval, \<^verbatim>\<open>prepare_instance_data\<close> produces exactly
  \<open>nx * ny * nz\<close> offsets; the offset of the lattice coordinate \<open>(x, y, z)\<close> is the corner
  \<open>- interval * 0.5 * (dim - 1)\<close> plus \<open>(x * dx, y * dy, z * dz)\<close>, each operation being the
  one of \<^verbatim>\<open>float\<close>, and it is at the index \<open>(x * ny + y) * nz + z\<close>: \<open>x\<close> outermost, \<open>z\<close>
  innermost. In the arithmetic of \<^verbatim>\<open>float\<close> the offsets are symmetric about the origin
  up to rounding: every offset has an offset that is its negation within
  \<open>14 * (\<bar>d\<bar> * n * 2 ^ - 24 + n * 2 ^ - 150)\<close> in each component, for the interval \<open>d\<close> and
  the dimension \<open>n\<close> of the component. They are symmetric exactly, the negation of every
  offset being an offset, when every interval component is \<open>m * 2 ^ e\<close> with
  \<open>1 \<le> m\<close> and \<open>m * n < 2 ^ 24\<close>, so that no operation rounds.
\<close>

theorem instancing_lattice:
  "1 \<le> nx \<and> 1 \<le> ny \<and> 1 \<le> nz \<and> nx * ny * nz \<le> INT_MAX \<longrightarrow>
     (\<exists>offs. prepare_instance_data ops (nx, ny, nz) interval = Inr offs \<and>
        length offs = nat (nx * ny * nz) \<and>
        (\<forall>x y z. 0 \<le> x \<and> x < nx \<and> 0 \<le> y \<and> y < ny \<and> 0 \<le> z \<and> z < nz \<longrightarrow>
           offs ! nat ((x * ny + y) * nz + z)
             = pos_offset ops (corner ops (nx, ny, nz) interval) interval x y z)) \<and>
     (finite_range ix nx \<and> finite_range iy ny \<and> finite_range iz nz \<longrightarrow>
        (\<exists>offs. prepare_instance_data binary32_ops (nx, ny, nz) (ix, iy, iz) = Inr offs \<and>
           (\<forall>p\<in>set offs. \<exists>q\<in>set offs.
              negation_within
                (rounding_bound ix nx, rounding_bound iy ny, rounding_bound iz nz) p q))) \<and>
     (unrounded mx ex nx \<and> unrounded my ey ny \<and> unrounded mz ez nz \<longrightarrow>
        (\<exists>offs. prepare_instance_data binary32_ops (nx, ny, nz)
                  (of_int mx * pow2 ex, of_int my * pow2 ey, of_int mz * pow2 ez) = Inr offs \<and>
           (\<forall>p\<in>set offs. vneg binary32_ops p \<in> set offs)))"
proof (intro impI conjI)
  assume a: "1 \<le> nx \<and> 1 \<le> ny \<and> 1 \<le> nz \<and> nx * ny * nz \<le> INT_MAX"
  then have n: "nat (nx * ny * nz) = nat nx * (nat ny * nat nz)"
    by (simp add: nat_mult_distrib mult.assoc)
  from a have
    "prepare_instance_data ops (nx, ny, nz) interval
       = Inr (lattice ops (corner ops (nx, ny, nz) interval) interval
                (int_range nx) (int_range ny) (int_range nz))"
    by (simp add: prepare_instance_data_ok)
  then show "\<exists>offs. prepare_instance_data ops (nx, ny, nz) interval = Inr offs \<and>
        length offs = nat (nx * ny * nz) \<and>
        (\<forall>x y z. 0 \<le> x \<and> x < nx \<and> 0 \<le> y \<and> y < ny \<and> 0 \<le> z \<and> z < nz \<longrightarrow>
           offs ! nat ((x * ny + y) * nz + z)
             = pos_offset ops (corner ops (nx, ny, nz) interval) interval x y z)"
    by (simp add: length_lattice length_int_range n lattice_nth)
next
  assume a: "1 \<le> nx \<and> 1 \<le> ny \<and> 1 \<le> nz \<and> nx * ny * nz \<le> INT_MAX"
  then have
    "prepare_instance_data binary32_ops (nx, ny, nz) (ix, iy, iz)
       = Inr (lattice binary32_ops (corner binary32_ops (nx, ny, nz) (ix, iy, iz)) (ix, iy, iz)
                (int_range nx) (int_range ny) (int_range nz))"
    by (simp add: prepare_instance_data_ok)
  then show "\<exists>offs. prepare_instance_data binary32_ops (nx, ny, nz) (ix, iy, iz) = Inr offs \<and>
           (\<forall>p\<in>set offs. \<exists>q\<in>set offs.
              negation_within
                (rounding_bound ix nx, rounding_bound iy ny, rounding_bound iz nz) p q)"
    using binary32_near_symmetric [of _ nx ny nz ix iy iz] by simp
next
  assume a: "1 \<le> nx \<and> 1 \<le> ny \<and> 1 \<le> nz \<and> nx * ny * nz \<le> INT_MAX"
    and u: "unrounded mx ex nx \<and> unrounded my ey ny \<and> unrounded mz ez nz"
  let ?iv = "(of_int mx * pow2 ex, of_int my * pow2 ey, of_int mz * pow2 ez)"
  from a have
    "prepare_instance_data binary32_ops (nx, ny, nz) ?iv
       = Inr (lattice binary32_ops (corner binary32_ops (nx, ny, nz) ?iv) ?iv
                (int_range nx) (int_range ny) (int_range nz))"
    by (simp add: prepare_instance_data_ok)
  also from u have "\<dots> = Inr (lattice exact_ops (corner exact_ops (nx, ny, nz) ?iv) ?iv
                (int_range nx) (int_range ny) (int_range nz))"
    by (simp only: binary32_lattice_exact)
  finally show "\<exists>offs. prepare_instance_data binary32_ops (nx, ny, nz) ?iv = Inr offs \<and>
        (\<forall>p\<in>set offs. vneg binary32_ops p \<in> set offs)"
    by (simp add: vneg_binary32 exact_symmetric)
qed

text \<open>
  A lattice of \<open>2 * 2 * 2\<close> with the interval \<open>1.5 = 3 * 2 ^ - 1\<close>, in the arithmetic of
  \<^verbatim>\<open>float\<close>: 8 offsets, the one of the coordinate \<open>(1, 0, 1)\<close> at the index 5, every
  negation among them, and so within the bound.
\<close>

theorem instancing_lattice_witness:
  "\<exists>offs. prepare_instance_data binary32_ops (2, 2, 2) (3 / 2, 3 / 2, 3 / 2) = Inr offs \<and>
     length offs = 8 \<and> offs ! 5 = (3 / 4, - (3 / 4), 3 / 4) \<and>
     list_all (\<lambda>p. vneg binary32_ops p \<in> set offs) offs \<and>
     list_all (\<lambda>p. list_ex (negation_within
        (rounding_bound (3 / 2) 2, rounding_bound (3 / 2) 2, rounding_bound (3 / 2) 2) p) offs) offs"
proof -
  have h: "(1::int) \<le> 2 \<and> (1::int) \<le> 2 \<and> (1::int) \<le> 2 \<and> (2::int) * 2 * 2 \<le> INT_MAX"
    by (simp add: INT_MAX_def)
  have f: "finite_range (3 / 2) 2 \<and> finite_range (3 / 2) 2 \<and> finite_range (3 / 2) 2"
    by (simp add: finite_range_def)
  have u: "unrounded 3 (- 1) 2 \<and> unrounded 3 (- 1) 2 \<and> unrounded 3 (- 1) 2"
    by (simp add: unrounded_def)
  have i: "rat_of_int 3 * pow2 (- 1) = 3 / 2" by (simp add: pow2_def)
  let ?iv = "(3 / 2, 3 / 2, 3 / 2) :: rat vec3"
  let ?b = "(rounding_bound (3 / 2) 2, rounding_bound (3 / 2) 2, rounding_bound (3 / 2) 2)"
  from instancing_lattice [where nx = 2 and ny = 2 and nz = 2 and ops = binary32_ops
      and interval = ?iv and ix = "3 / 2" and iy = "3 / 2" and iz = "3 / 2"
      and mx = 3 and my = 3 and mz = 3 and ex = "- 1" and ey = "- 1" and ez = "- 1"] h f u
  obtain offs offs' offs'' where
    a: "prepare_instance_data binary32_ops (2, 2, 2) ?iv = Inr offs"
       "length offs = nat (2 * 2 * 2)"
       "\<forall>x y z. 0 \<le> x \<and> x < 2 \<and> 0 \<le> y \<and> y < 2 \<and> 0 \<le> z \<and> z < 2 \<longrightarrow>
           offs ! nat ((x * 2 + y) * 2 + z)
             = pos_offset binary32_ops (corner binary32_ops (2, 2, 2) ?iv) ?iv x y z" and
    b: "prepare_instance_data binary32_ops (2, 2, 2) ?iv = Inr offs'"
       "\<forall>p\<in>set offs'. \<exists>q\<in>set offs'. negation_within ?b p q" and
    c: "prepare_instance_data binary32_ops (2, 2, 2) ?iv = Inr offs''"
       "\<forall>p\<in>set offs''. vneg binary32_ops p \<in> set offs''"
    unfolding i by blast
  from a(1) b(1) c(1) have e: "offs' = offs" "offs'' = offs" by simp_all
  from a(3) have "(0::int) \<le> 1 \<and> (1::int) < 2 \<and> (0::int) \<le> 0 \<and> (0::int) < 2 \<and>
      (0::int) \<le> 1 \<and> (1::int) < 2 \<longrightarrow>
      offs ! nat ((1 * 2 + 0) * 2 + 1)
        = pos_offset binary32_ops (corner binary32_ops (2, 2, 2) ?iv) ?iv 1 0 1"
    by blast
  moreover have "pos_offset binary32_ops (corner binary32_ops (2, 2, 2) ?iv) ?iv 1 0 1
        = pos_offset exact_ops (corner exact_ops (2, 2, 2) ?iv) ?iv 1 0 1"
    using binary32_offset_exact [of 3 "- 1" 2 3 "- 1" 2 3 "- 1" 2 1 0 1] u
    unfolding i by simp
  ultimately have 1: "offs ! 5 = (3 / 4, - (3 / 4), 3 / 4)"
    by (simp add: pos_offset_def corner_def exact_ops_def)
  from a(2) have 2: "length offs = 8" by simp
  from c(2) have 3: "list_all (\<lambda>p. vneg binary32_ops p \<in> set offs) offs"
    unfolding e by (simp add: list_all_iff)
  from b(2) have 4: "list_all (\<lambda>p. list_ex (negation_within ?b p) offs) offs"
    unfolding e by (simp add: list_all_iff list_ex_iff)
  from a(1) 1 2 3 4 show ?thesis by blast
qed

text \<open>
  In the arithmetic of \<^verbatim>\<open>float\<close>, four instances along \<open>x\<close> at the interval \<^verbatim>\<open>0.1f\<close>: the
  corner \<^verbatim>\<open>-0.1f * 0.5f * 3\<close> is rounded, so is \<^verbatim>\<open>0.1f * 3\<close>, and the second offset is
  \<open>- 6710887 / 2 ^ 27\<close> where the third is \<open>6710886 / 2 ^ 27\<close>: the negation of the second
  offset is not an offset.
\<close>

theorem instancing_lattice_counterexample:
  "flit binary32_ops (1 / 10) = 13421773 / 134217728 \<and>
   prepare_instance_data binary32_ops (4, 1, 1)
     (flit binary32_ops (1 / 10), flit binary32_ops (1 / 10), flit binary32_ops (1 / 10))
   = Inr [(- (5033165 / 33554432), 0, 0), (- (6710887 / 134217728), 0, 0),
          (3355443 / 67108864, 0, 0), (5033165 / 33554432, 0, 0)] \<and>
   vneg binary32_ops (- (6710887 / 134217728), 0, 0) = (6710887 / 134217728, 0, 0) \<and>
   (6710887 / 134217728, 0, 0)
     \<notin> set [(- (5033165 / 33554432), 0, 0), (- (6710887 / 134217728), 0, 0),
            (3355443 / 67108864, 0, 0), (5033165 / 33554432 :: rat, 0 :: rat, 0 :: rat)]"
proof -
  have "prepare_instance_data binary32_ops (4, 1, 1)
     (flit binary32_ops (1 / 10), flit binary32_ops (1 / 10), flit binary32_ops (1 / 10))
   = Inr [(- (5033165 / 33554432), 0, 0), (- (6710887 / 134217728), 0, 0),
          (3355443 / 67108864, 0, 0), (5033165 / 33554432, 0, 0)]"
    by (simp add: prepare_instance_data_def lattice_size_def checked_int_def INT_MAX_def
        INT_MIN_def int_range_def pos_offset_def store_def binary32_ops_def
        binary32_round_values upt_rec numeral_eq_Suc)
  then show ?thesis
    by (simp add: vneg_def binary32_ops_def binary32_round_values)
qed

lemma concat_chunks_take:
  "concat (map (\<lambda>k. take n (drop (k * n) xs)) [0..<m]) = take (m * n) xs"
proof (induction m)
  case 0
  then show ?case by simp
next
  case (Suc m)
  have "take (m * n + n) xs = take (m * n) xs @ take n (drop (m * n) xs)"
    by (rule take_add)
  with Suc show ?case by (simp add: add.commute)
qed

lemma concat_chunks: "n dvd length xs \<Longrightarrow> concat (chunks n xs) = xs"
  by (simp add: chunks_def concat_chunks_take)

lemma length_chunks: "length (chunks n xs) = length xs div n"
  by (simp add: chunks_def)

lemma chunk_size:
  assumes "n dvd length xs" "c \<in> set (chunks n xs)"
  shows "length c = n"
proof -
  from assms(2) obtain k where k: "k < length xs div n" and c: "c = take n (drop (k * n) xs)"
    by (auto simp: chunks_def)
  from assms(1) obtain q where q: "length xs = n * q" by (auto simp: dvd_def)
  show ?thesis
  proof (cases "n = 0")
    case True
    then show ?thesis by (simp add: c)
  next
    case False
    with k q have "k < q" by simp
    then have "Suc k \<le> q" by simp
    then have "Suc k * n \<le> q * n" by (rule mult_le_mono1)
    with q have "k * n + n \<le> length xs" by (simp add: mult.commute)
    then show ?thesis by (simp add: c)
  qed
qed

text \<open>
  What \<^verbatim>\<open>CopyBuffer\<close> does when no byte goes past the end of the vector. For a name that
  is not in the map it returns the empty vector. For a buffer whose size is a multiple of
  \<open>sizeof(T)\<close> it returns \<open>size / sizeof(T)\<close> elements that hold the bytes of the buffer in
  their order, leaves the buffer as it was, and calls \<^verbatim>\<open>map\<close> and \<^verbatim>\<open>unmap\<close> exactly when
  the buffer was not mapped on entry.
\<close>

lemma copy_buffer_multiple:
  assumes "0 < sizeof_T"
  shows "(buffers buffer_name = None \<longrightarrow>
            CopyBuffer sizeof_T buffers buffer_name = Inr ([], buffers, [])) \<and>
         (\<forall>b. buffers buffer_name = Some b \<and> sizeof_T dvd length (contents b) \<longrightarrow>
            (\<exists>out calls.
               CopyBuffer sizeof_T buffers buffer_name = Inr (out, buffers, calls) \<and>
               length out = length (contents b) div sizeof_T \<and>
               (\<forall>v\<in>set out. length v = sizeof_T) \<and>
               concat out = contents b \<and>
               calls = (if mapped b then [] else [Map, Unmap])))"
proof (intro conjI allI impI)
  assume "buffers buffer_name = None"
  then show "CopyBuffer sizeof_T buffers buffer_name = Inr ([], buffers, [])"
    by (simp add: CopyBuffer_def)
next
  fix b
  assume a: "buffers buffer_name = Some b \<and> sizeof_T dvd length (contents b)"
  then obtain q where q: "length (contents b) = sizeof_T * q" by (auto simp: dvd_def)
  from q assms have d: "length (contents b) div sizeof_T = q" by simp
  have u: "buffers(buffer_name \<mapsto> b) = buffers"
    using a by (simp add: fun_upd_idem)
  have r: "\<not> mapped b \<Longrightarrow> b\<lparr>mapped := False\<rparr> = b" by simp
  have "CopyBuffer sizeof_T buffers buffer_name
        = Inr (chunks sizeof_T (contents b), buffers, if mapped b then [] else [Map, Unmap])"
    using a u by (simp add: CopyBuffer_def Let_def d q mult.commute r)
  moreover have "length (chunks sizeof_T (contents b)) = length (contents b) div sizeof_T"
    by (rule length_chunks)
  moreover have "\<forall>v\<in>set (chunks sizeof_T (contents b)). length v = sizeof_T"
    using a chunk_size by blast
  moreover have "concat (chunks sizeof_T (contents b)) = contents b"
    using a by (simp add: concat_chunks)
  ultimately show "\<exists>out calls.
               CopyBuffer sizeof_T buffers buffer_name = Inr (out, buffers, calls) \<and>
               length out = length (contents b) div sizeof_T \<and>
               (\<forall>v\<in>set out. length v = sizeof_T) \<and>
               concat out = contents b \<and>
               calls = (if mapped b then [] else [Map, Unmap])"
    by blast
qed

text \<open>
  Four bytes read as two elements of two bytes; a name that is not in the map; an empty
  buffer.
\<close>

lemma copy_buffer_examples:
  "CopyBuffer 2 [''position'' \<mapsto> \<lparr>contents = [1, 2, 3, 4], mapped = False\<rparr>] ''texcoord_0''
     = Inr ([], [''position'' \<mapsto> \<lparr>contents = [1, 2, 3, 4], mapped = False\<rparr>], [])"
  "CopyBuffer 2 [''position'' \<mapsto> \<lparr>contents = [1, 2, 3, 4], mapped = False\<rparr>] ''position''
     = Inr ([[1, 2], [3, 4]], [''position'' \<mapsto> \<lparr>contents = [1, 2, 3, 4], mapped = False\<rparr>],
            [Map, Unmap])"
  "CopyBuffer 4 [''position'' \<mapsto> \<lparr>contents = [], mapped = False\<rparr>] ''position''
     = Inr ([], [''position'' \<mapsto> \<lparr>contents = [], mapped = False\<rparr>], [Map, Unmap])"
  by (simp_all add: CopyBuffer_def Let_def chunks_def upt_rec fun_upd_idem)

text \<open>
  Claim C9 at a buffer whose size is not a multiple of \<open>sizeof(T)\<close>. With 5 bytes and
  elements of 4 bytes, \<^verbatim>\<open>out.resize(sz / sizeof(T))\<close> gives the vector one element, of 4
  bytes, and \<^verbatim>\<open>memcpy\<close> then writes all 5 bytes of the buffer to it: the last byte goes
  past the end of the vector, where the claim has one element holding the bytes of the
  buffer.
\<close>

theorem copy_buffer_overrun:
  "length (contents \<lparr>contents = [1, 2, 3, 4, 5], mapped = False\<rparr>) div 4 = 1 \<and>
   CopyBuffer 4 [''position'' \<mapsto> \<lparr>contents = [1, 2, 3, 4, 5], mapped = False\<rparr>] ''position''
     = Inl OutOfBounds"
  by (simp add: CopyBuffer_def Let_def)

end
